theory Spec2Isabelle
  imports
    Complex_Main
    "HOL-Library.Multiset"
    "HOL-Library.Char_ord"
    "HOL-Library.List_Lexorder"
begin

section \<open>The figure script \<open>figure_rq2.py\<close>\<close>

text \<open>
  The script is one straight-line pipeline: load a table, abbreviate the prompting
  techniques, number them, keep the five best rows of every technique, choose markers and
  colours, draw, and save four files. Each module-level variable of the script is a
  function of the loaded table here, under the variable's own name.

  Modelling conventions.
  \<^item> A table is the list of its rows, in file order. A row is a record of the four columns
    the script reads and of the column \<open>prompt_numeric\<close> it adds (line 39).
  \<^item> Strings are \<open>char list\<close>, compared as Python compares \<open>str\<close>: lexicographically,
    character by character, a proper prefix first. Case conversion is modelled on ASCII.
  \<^item> Scores are \<open>real\<close>: Python's floats without rounding, overflow, infinities and
    NaN. Arithmetic on them is exact.
  \<^item> Every place where the script can raise is a branch returning \<open>Inl\<close>.
  \<^item> Library calls (pandas, seaborn, matplotlib) are modelled from their documented
    behaviour; each such definition says so.
\<close>

subsection \<open>Rows and errors\<close>

record row =
  llm :: string
  prompt :: string
  ssvc_decision_point :: string
  f1_harmonic_mean :: real
  prompt_numeric :: "nat option"

type_synonym dataframe = "row list"

datatype error = IndexError | KeyError | ValueError | SaveError string

subsection \<open>Library primitives\<close>

text \<open>\<open>Series.unique()\<close>: the distinct values, in order of first appearance.\<close>

fun unique :: "'a list \<Rightarrow> 'a list" where
  "unique [] = []"
| "unique (x # xs) = x # unique (filter (\<lambda>y. y \<noteq> x) xs)"

text \<open>\<open>str.split(sep)\<close> with a one-character separator: every occurrence splits, so a
  string with \<open>n\<close> separators has \<open>n + 1\<close> segments, some of them possibly empty.\<close>

fun split :: "char \<Rightarrow> string \<Rightarrow> string list" where
  "split sep [] = [[]]"
| "split sep (c # cs) =
     (if c = sep then [] # split sep cs
      else (case split sep cs of
              [] \<Rightarrow> [[c]]
            | w # ws \<Rightarrow> (c # w) # ws))"

text \<open>\<open>str.split(sep, 1)\<close>: at most one split, at the first separator.\<close>

definition split1 :: "char \<Rightarrow> string \<Rightarrow> string list" where
  "split1 sep s =
     (if sep \<in> set s
      then [takeWhile (\<lambda>c. c \<noteq> sep) s, tl (dropWhile (\<lambda>c. c \<noteq> sep) s)]
      else [s])"

text \<open>\<open>str.upper()\<close> on one ASCII character.\<close>

definition upper :: "char \<Rightarrow> char" where
  "upper c =
     (let n = (of_char c :: nat)
      in if 97 \<le> n \<and> n \<le> 122 then char_of (n - 32) else c)"

text \<open>\<open>str.replace(old, new)\<close> for one-character \<open>old\<close> and \<open>new\<close>.\<close>

definition replace :: "char \<Rightarrow> char \<Rightarrow> string \<Rightarrow> string" where
  "replace old new s = map (\<lambda>c. if c = old then new else c) s"

text \<open>\<open>enumerate\<close>.\<close>

definition enumerate_from0 :: "'a list \<Rightarrow> (nat \<times> 'a) list" where
  "enumerate_from0 xs = zip [0..<length xs] xs"

text \<open>A dict comprehension \<open>{k: v for ...}\<close>: the pairs are stored one after the other, a
  later pair overwriting an earlier one with the same key.\<close>

definition dict_of :: "('k \<times> 'v) list \<Rightarrow> ('k \<rightharpoonup> 'v)" where
  "dict_of kvs = fold (\<lambda>(k, v) m. m(k \<mapsto> v)) kvs Map.empty"

text \<open>\<open>DataFrame.nlargest(n, column)\<close> with the default \<open>keep='first'\<close>: the first \<open>n\<close>
  rows in descending order of the column, rows with equal values in their original
  order. \<open>sort_key\<close> is a stable sort, ascending in the key.\<close>

definition nlargest :: "nat \<Rightarrow> dataframe \<Rightarrow> dataframe" where
  "nlargest n d = take n (sort_key (\<lambda>r. - f1_harmonic_mean r) d)"

text \<open>The built-in \<open>max\<close> over an iterable; it raises \<open>ValueError\<close> on an empty one.\<close>

definition py_max :: "real list \<Rightarrow> error + real" where
  "py_max xs = (case xs of [] \<Rightarrow> Inl ValueError | x # ys \<Rightarrow> Inr (fold max ys x))"

text \<open>\<open>matplotlib.transforms.nonsingular(vmin, vmax, expander, tiny)\<close>, as the locator of a
  linear axis calls it (\<open>expander = 0.05\<close>, \<open>tiny = 1e-15\<close>, \<open>increasing = True\<close>): an
  interval that is too small for the axis transform is widened. \<open>float_tiny\<close> is
  \<open>np.finfo(float).tiny\<close>, the smallest positive normal double.\<close>

definition expander :: real where
  "expander = 0.05"

definition tiny :: real where
  "tiny = 1 / 10 ^ 15"

definition float_tiny :: real where
  "float_tiny = 1 / 2 ^ 1022"

definition nonsingular :: "real \<Rightarrow> real \<Rightarrow> real \<times> real" where
  "nonsingular v0 v1 =
     (let (vmin, vmax) = (if v1 < v0 then (v1, v0) else (v0, v1));
          maxabsvalue = max \<bar>vmin\<bar> \<bar>vmax\<bar>
      in if maxabsvalue < (10 ^ 6 / tiny) * float_tiny then (- expander, expander)
         else if vmax - vmin \<le> maxabsvalue * tiny then
           (if vmax = 0 \<and> vmin = 0 then (- expander, expander)
            else (vmin - expander * \<bar>vmin\<bar>, vmax + expander * \<bar>vmax\<bar>))
         else (vmin, vmax))"

text \<open>\<open>ax.set_ylim(bottom, top)\<close> on a linear axis, and the limits the axis has afterwards:
  the two values go through \<open>nonsingular\<close> and are put back in the order they were given
  in (an axis may be inverted). The call turns autoscaling off, so nothing after it moves
  the limits. It raises for NaN and infinite limits, which real numbers do not have.\<close>

definition set_ylim :: "real \<Rightarrow> real \<Rightarrow> real \<times> real" where
  "set_ylim lo hi =
     (let reverse = (lo > hi);
          (v0, v1) = nonsingular lo hi
      in if reverse then (max v0 v1, min v0 v1) else (min v0 v1, max v0 v1))"

text \<open>Subscripting a dict, \<open>d[k]\<close>: a missing key raises \<open>KeyError\<close>.\<close>

definition getitem :: "('k \<rightharpoonup> 'v) \<Rightarrow> 'k \<Rightarrow> error + 'v" where
  "getitem d k = (case d k of None \<Rightarrow> Inl KeyError | Some v \<Rightarrow> Inr v)"

text \<open>Sequencing of statements that may raise: the first error ends the run.\<close>

definition bind_err :: "error + 'a \<Rightarrow> ('a \<Rightarrow> error + 'b) \<Rightarrow> error + 'b" where
  "bind_err m f = (case m of Inl e \<Rightarrow> Inl e | Inr x \<Rightarrow> f x)"

text \<open>A loop or comprehension whose body may raise, collecting the results in order.\<close>

fun traverse :: "('a \<Rightarrow> error + 'b) \<Rightarrow> 'a list \<Rightarrow> error + 'b list" where
  "traverse f [] = Inr []"
| "traverse f (x # xs) =
     bind_err (f x) (\<lambda>y. bind_err (traverse f xs) (\<lambda>ys. Inr (y # ys)))"

text \<open>\<open>sns.color_palette("colorblind", n)\<close>. seaborn's colorblind palette has ten colours;
  asking for more makes the palette cycle, so the list returned always has \<open>n\<close> entries.\<close>

definition colorblind :: "string list" where
  "colorblind =
     [''#0173B2'', ''#DE8F05'', ''#029E73'', ''#D55E00'', ''#CC78BC'',
      ''#CA9161'', ''#FBAFE4'', ''#949494'', ''#ECE133'', ''#56B4E9'']"

definition color_palette :: "nat \<Rightarrow> string list" where
  "color_palette n = map (\<lambda>i. colorblind ! (i mod length colorblind)) [0..<n]"

subsection \<open>Lines 24--39: distinct values, abbreviations, numbering\<close>

definition llms :: "dataframe \<Rightarrow> string list" where
  "llms df = unique (map llm df)"

definition prompts :: "dataframe \<Rightarrow> string list" where
  "prompts df = unique (map prompt df)"

definition decision_points :: "dataframe \<Rightarrow> string list" where
  "decision_points df = unique (map ssvc_decision_point df)"

text \<open>Line 34, \<open>''.join([word[0].upper() for word in words])\<close>: \<open>word[0]\<close> raises
  \<open>IndexError\<close> on an empty word.\<close>

fun first_letters :: "string list \<Rightarrow> error + string" where
  "first_letters [] = Inr []"
| "first_letters (word # words) =
     (case word of
        [] \<Rightarrow> Inl IndexError
      | c # _ \<Rightarrow> bind_err (first_letters words) (\<lambda>cs. Inr (upper c # cs)))"

definition abbreviate :: "string \<Rightarrow> error + string" where
  "abbreviate p = first_letters (split CHR ''_'' p)"

text \<open>Lines 30--35: the loop filling the dict \<open>prompt_abbrev\<close>.\<close>

fun abbrev_loop :: "string list \<Rightarrow> (string \<rightharpoonup> string) \<Rightarrow> error + (string \<rightharpoonup> string)" where
  "abbrev_loop [] d = Inr d"
| "abbrev_loop (p # ps) d =
     bind_err (abbreviate p) (\<lambda>abbrev. abbrev_loop ps (d(p \<mapsto> abbrev)))"

definition prompt_abbrev :: "dataframe \<Rightarrow> error + (string \<rightharpoonup> string)" where
  "prompt_abbrev df = abbrev_loop (prompts df) Map.empty"

text \<open>Line 38.\<close>

definition prompt_mapping :: "dataframe \<Rightarrow> (string \<rightharpoonup> nat)" where
  "prompt_mapping df =
     dict_of (map (\<lambda>(i, p). (p, i)) (enumerate_from0 (sort (prompts df))))"

text \<open>Line 39, \<open>df['prompt_numeric'] = df['prompt'].map(prompt_mapping)\<close>: \<open>Series.map\<close>
  with a dict gives a missing value for a key that is not in the dict.\<close>

definition df_numbered :: "dataframe \<Rightarrow> dataframe" where
  "df_numbered df = map (\<lambda>r. r\<lparr>prompt_numeric := prompt_mapping df (prompt r)\<rparr>) df"

subsection \<open>Lines 41--60: the top-5 subset and the visual encodings\<close>

text \<open>Lines 42--47: the loop accumulating \<open>top_df\<close>, one technique after the other in the
  order of \<open>prompts\<close>.\<close>

definition top_df :: "dataframe \<Rightarrow> dataframe" where
  "top_df df =
     fold (\<lambda>p acc. acc @ nlargest 5 (filter (\<lambda>r. prompt r = p) (df_numbered df)))
       (prompts df) []"

text \<open>Lines 50--51. When the table has no row the loop above never runs, \<open>top_df\<close> is still
  the \<open>pd.DataFrame()\<close> of line 42, which has no column, and \<open>top_df['llm']\<close> raises
  \<open>KeyError\<close>.\<close>

definition top_llms :: "dataframe \<Rightarrow> error + string list" where
  "top_llms df =
     (if prompts df = [] then Inl KeyError else Inr (unique (map llm (top_df df))))"

definition top_decision_points :: "dataframe \<Rightarrow> error + string list" where
  "top_decision_points df =
     (if prompts df = [] then Inl KeyError
      else Inr (unique (map ssvc_decision_point (top_df df))))"

text \<open>Lines 54--55.\<close>

definition markers :: "string list" where
  "markers = [''o'', ''s'', ''D'', ''^'', ''v'', ''<'', ''>'', ''p'', ''*'', ''h'', ''H'', ''X'']"

definition llm_markers :: "string list \<Rightarrow> (string \<rightharpoonup> string)" where
  "llm_markers ls =
     dict_of (map (\<lambda>(i, l). (l, markers ! (i mod length markers))) (enumerate_from0 (sort ls)))"

text \<open>Lines 59--60. \<open>colors[i]\<close> is always in range: \<open>colors\<close> has as many entries as there
  are categories.\<close>

definition colors :: "string list \<Rightarrow> string list" where
  "colors tdp = color_palette (length tdp)"

definition decision_colors :: "string list \<Rightarrow> (string \<rightharpoonup> string)" where
  "decision_colors tdp =
     dict_of (map (\<lambda>(i, dp). (dp, colors tdp ! i)) (enumerate_from0 (sort tdp)))"

subsection \<open>Lines 62--161: what is drawn\<close>

text \<open>One \<open>ax.scatter\<close> call (lines 71--81): the x and y columns of the rows drawn, one
  colour per row, the marker and the label.\<close>

record series =
  sc_x :: "nat option list"
  sc_y :: "real list"
  sc_c :: "string list"
  sc_marker :: string
  sc_label :: string

text \<open>One \<open>plt.Line2D\<close> legend handle (lines 125 and 132).\<close>

record legend_entry =
  le_marker :: string
  le_markerfacecolor :: string
  le_label :: string

record figure =
  fig_scatter :: "series list"
  fig_llm_legend :: "legend_entry list"
  fig_decision_legend :: "legend_entry list"
  fig_xticks :: "nat list"
  fig_xticklabels :: "string list"
  fig_ylim :: "real \<times> real"

text \<open>Lines 69--81, the body of the two nested loops: nothing is drawn for a pair of model
  and category that has no row in the subset.\<close>

definition scatter_one ::
  "dataframe \<Rightarrow> (string \<rightharpoonup> string) \<Rightarrow> (string \<rightharpoonup> string) \<Rightarrow> string \<times> string
     \<Rightarrow> error + series option" where
  "scatter_one tdf lm dc ld =
     (let subset = filter (\<lambda>r. llm r = fst ld \<and> ssvc_decision_point r = snd ld) tdf
      in if subset = [] then Inr None
         else bind_err (getitem dc (snd ld)) (\<lambda>col.
              bind_err (getitem lm (fst ld)) (\<lambda>m.
              Inr (Some \<lparr>sc_x = map prompt_numeric subset,
                         sc_y = map f1_harmonic_mean subset,
                         sc_c = replicate (length subset) col,
                         sc_marker = m,
                         sc_label = last (split CHR ''/'' (fst ld)) @ '' - '' @ snd ld\<rparr>))))"

text \<open>Lines 67--68: \<open>for llm in sorted(top_llms): for decision in sorted(top_decision_points)\<close>.\<close>

definition scatter_all ::
  "dataframe \<Rightarrow> (string \<rightharpoonup> string) \<Rightarrow> (string \<rightharpoonup> string) \<Rightarrow> string list \<Rightarrow> string list
     \<Rightarrow> error + series list" where
  "scatter_all tdf lm dc ls tdp =
     bind_err (traverse (scatter_one tdf lm dc) (List.product (sort ls) (sort tdp)))
       (\<lambda>drawn. Inr (List.map_filter (\<lambda>s. s) drawn))"

text \<open>Lines 115--123: the label of a model in the legend.\<close>

definition legend_model_name :: "string \<Rightarrow> string" where
  "legend_model_name l =
     (let model_name = last (split CHR ''/'' l);
          model_name = (if CHR ''-'' \<in> set model_name
                        then hd (split1 CHR ''-'' model_name) else model_name)
      in case model_name of [] \<Rightarrow> [] | c # cs \<Rightarrow> upper c # cs)"

text \<open>Lines 113--126 and 129--133: the two loops appending to \<open>legend_elements\<close>.\<close>

definition llm_legend_elements :: "(string \<rightharpoonup> string) \<Rightarrow> string list \<Rightarrow> error + legend_entry list" where
  "llm_legend_elements lm ls =
     traverse (\<lambda>l. bind_err (getitem lm l) (\<lambda>m.
                 Inr \<lparr>le_marker = m, le_markerfacecolor = ''gray'',
                      le_label = legend_model_name l\<rparr>))
       (sort ls)"

definition decision_legend_elements ::
  "(string \<rightharpoonup> string) \<Rightarrow> string list \<Rightarrow> error + legend_entry list" where
  "decision_legend_elements dc tdp =
     traverse (\<lambda>d. bind_err (getitem dc d) (\<lambda>col.
                 Inr \<lparr>le_marker = ''o'', le_markerfacecolor = col,
                      le_label = replace CHR ''_'' CHR '' '' d\<rparr>))
       (sort tdp)"

text \<open>Lines 24--173 in the order of the script, up to the first statement that raises;
  \<open>fig_ylim\<close> is the pair of limits the y axis has after line 161. The score labels next
  to the points (lines 83--99), their repositioning by \<open>adjust_text\<close> (lines 101--107) and
  the styling are not part of the model, and neither is an exception raised there: the
  result \<open>Inr\<close> says that the statements that are modelled have run.\<close>

definition build_figure :: "dataframe \<Rightarrow> error + figure" where
  "build_figure df =
     bind_err (prompt_abbrev df) (\<lambda>pa.
     bind_err (top_llms df) (\<lambda>ls.
     bind_err (top_decision_points df) (\<lambda>tdp.
     bind_err (scatter_all (top_df df) (llm_markers ls) (decision_colors tdp) ls tdp) (\<lambda>sc.
     bind_err (llm_legend_elements (llm_markers ls) ls) (\<lambda>le1.
     bind_err (decision_legend_elements (decision_colors tdp) tdp) (\<lambda>le2.
     bind_err (traverse (getitem pa) (sort (prompts df))) (\<lambda>labels.
     bind_err (py_max (map f1_harmonic_mean (top_df df))) (\<lambda>m.
     Inr \<lparr>fig_scatter = sc,
          fig_llm_legend = take (length ls) (le1 @ le2),
          fig_decision_legend = drop (length ls) (le1 @ le2),
          fig_xticks = [0..<length (prompts df)],
          fig_xticklabels = labels,
          fig_ylim = set_ylim 0.5 (m * 1.05)\<rparr>))))))))"

subsection \<open>Lines 175--179: saving the figure\<close>

text \<open>
  The state of the export is the list of files this run has written so far, and the
  exception that ended the run, if any. Whether \<open>plt.savefig\<close> can write a file is up to
  the environment (the disk, the directory's permissions, the image library that writes
  TIFF), which is the parameter \<open>ok\<close>. A call that fails raises; the script catches
  nothing and removes nothing.
\<close>

type_synonym export_state = "string list \<times> error option"

definition savefig :: "(string \<Rightarrow> bool) \<Rightarrow> string \<Rightarrow> export_state \<Rightarrow> export_state" where
  "savefig ok fname st =
     (case st of
        (files, Some e) \<Rightarrow> (files, Some e)
      | (files, None) \<Rightarrow>
          if ok fname then (files @ [fname], None) else (files, Some (SaveError fname)))"

definition export :: "(string \<Rightarrow> bool) \<Rightarrow> export_state" where
  "export ok =
     savefig ok ''prompt_top5_performance_plot.eps''
       (savefig ok ''prompt_top5_performance_plot.tiff''
         (savefig ok ''prompt_top5_performance_plot.png''
           (savefig ok ''prompt_top5_performance_plot.pdf'' ([], None))))"

definition output_files :: "string list" where
  "output_files =
     [''prompt_top5_performance_plot.pdf'', ''prompt_top5_performance_plot.png'',
      ''prompt_top5_performance_plot.tiff'', ''prompt_top5_performance_plot.eps'']"

text \<open>The whole run on a loaded table: the files written and the uncaught exception.\<close>

definition main :: "(string \<Rightarrow> bool) \<Rightarrow> dataframe \<Rightarrow> export_state" where
  "main ok df =
     (case build_figure df of
        Inl e \<Rightarrow> ([], Some e)
      | Inr fig \<Rightarrow> export ok)"

section \<open>Notions of the specification\<close>

text \<open>The specification's record: model, prompting technique, decision point, score. The
  column \<open>prompt_numeric\<close> that the script adds is not part of it.\<close>

definition record_of :: "row \<Rightarrow> string \<times> string \<times> string \<times> real" where
  "record_of r = (llm r, prompt r, ssvc_decision_point r, f1_harmonic_mean r)"

definition score :: "string \<times> string \<times> string \<times> real \<Rightarrow> real" where
  "score rc = snd (snd (snd rc))"

text \<open>A row as \<open>pd.read_csv\<close> loads it: the column \<open>prompt_numeric\<close> is not there yet.\<close>

definition loaded :: "string \<Rightarrow> string \<Rightarrow> string \<Rightarrow> real \<Rightarrow> row" where
  "loaded l p d f =
     \<lparr>llm = l, prompt = p, ssvc_decision_point = d, f1_harmonic_mean = f,
      prompt_numeric = None\<rparr>"

text \<open>The 0-based position of the first occurrence of an element in a list.\<close>

definition index_in :: "'a list \<Rightarrow> 'a \<Rightarrow> nat" where
  "index_in xs x = length (takeWhile (\<lambda>y. y \<noteq> x) xs)"

text \<open>Words delimited by a separator: \<open>sep.join(words)\<close>.\<close>

fun join :: "char \<Rightarrow> string list \<Rightarrow> string" where
  "join sep [] = []"
| "join sep [w] = w"
| "join sep (w # v # ws) = w @ sep # join sep (v # ws)"

text \<open>The abbreviation the specification describes: the uppercased first letter of each
  word.\<close>

definition initials :: "string list \<Rightarrow> string" where
  "initials ws = map (\<lambda>w. upper (hd w)) ws"

text \<open>The model label the specification describes: the text before the first hyphen, with
  its first letter in upper case.\<close>

definition capitalize_first :: "string \<Rightarrow> string" where
  "capitalize_first s = (case s of [] \<Rightarrow> [] | c # cs \<Rightarrow> upper c # cs)"

definition before_first_hyphen :: "string \<Rightarrow> string" where
  "before_first_hyphen s = takeWhile (\<lambda>c. c \<noteq> CHR ''-'') s"

text \<open>The points of a figure: the pairs of x and y of all its scatter series.\<close>

definition points :: "figure \<Rightarrow> (nat option \<times> real) list" where
  "points fig = concat (map (\<lambda>s. zip (sc_x s) (sc_y s)) (fig_scatter fig))"

section \<open>Example tables\<close>

text \<open>Two techniques; \<open>zero_shot\<close> has six rows, so one of them is dropped.\<close>

definition ex_table :: dataframe where
  "ex_table =
     [loaded ''gpt-4'' ''zero_shot'' ''exploitation'' 0.60,
      loaded ''gpt-4'' ''zero_shot'' ''automatable'' 0.90,
      loaded ''llama-3'' ''few_shot'' ''exploitation'' 0.80,
      loaded ''llama-3'' ''zero_shot'' ''exploitation'' 0.70,
      loaded ''llama-3'' ''zero_shot'' ''automatable'' 0.85,
      loaded ''gemma-2'' ''zero_shot'' ''exploitation'' 0.95,
      loaded ''gemma-2'' ''zero_shot'' ''automatable'' 0.65]"

text \<open>Thirteen models, all of them in the top-5 subset (three techniques).\<close>

definition ex_models :: dataframe where
  "ex_models =
     [loaded ''a'' ''p'' ''x'' 0.9, loaded ''b'' ''p'' ''x'' 0.9, loaded ''c'' ''p'' ''x'' 0.9,
      loaded ''d'' ''p'' ''x'' 0.9, loaded ''e'' ''p'' ''x'' 0.9, loaded ''f'' ''q'' ''x'' 0.9,
      loaded ''g'' ''q'' ''x'' 0.9, loaded ''h'' ''q'' ''x'' 0.9, loaded ''i'' ''q'' ''x'' 0.9,
      loaded ''j'' ''q'' ''x'' 0.9, loaded ''k'' ''r'' ''x'' 0.9, loaded ''l'' ''r'' ''x'' 0.9,
      loaded ''m'' ''r'' ''x'' 0.9]"

text \<open>Eleven decision-point categories, all of them in the top-5 subset.\<close>

definition ex_categories :: dataframe where
  "ex_categories =
     [loaded ''m'' ''p'' ''a'' 0.9, loaded ''m'' ''p'' ''b'' 0.9, loaded ''m'' ''p'' ''c'' 0.9,
      loaded ''m'' ''p'' ''d'' 0.9, loaded ''m'' ''p'' ''e'' 0.9, loaded ''m'' ''q'' ''f'' 0.9,
      loaded ''m'' ''q'' ''g'' 0.9, loaded ''m'' ''q'' ''h'' 0.9, loaded ''m'' ''q'' ''i'' 0.9,
      loaded ''m'' ''q'' ''j'' 0.9, loaded ''m'' ''r'' ''k'' 0.9]"

text \<open>Two techniques with the same initials.\<close>

definition ex_collision :: dataframe where
  "ex_collision =
     [loaded ''gpt-4'' ''zero_shot'' ''exploitation'' 0.9,
      loaded ''gpt-4'' ''zero_step'' ''exploitation'' 0.8]"

text \<open>A model identifier with an organisation prefix.\<close>

definition ex_slash :: dataframe where
  "ex_slash = [loaded ''meta-llama/Llama-3-8b'' ''zero_shot'' ''mission_impact'' 0.9]"

text \<open>A technique with a doubled underscore.\<close>

definition ex_empty_word :: dataframe where
  "ex_empty_word =
     [loaded ''gpt-4'' ''zero_shot'' ''exploitation'' 0.9,
      loaded ''gpt-4'' ''few__shot'' ''exploitation'' 0.8]"


text \<open>An environment in which only the PDF can be written.\<close>

definition only_pdf :: "string \<Rightarrow> bool" where
  "only_pdf fname \<longleftrightarrow> fname = ''prompt_top5_performance_plot.pdf''"

definition all_writable :: "string \<Rightarrow> bool" where
  "all_writable fname \<longleftrightarrow> True"

section \<open>Properties of the model\<close>

lemma set_unique [simp]: "set (unique xs) = set xs"
  by (induction xs rule: unique.induct) auto

lemma distinct_unique [simp]: "distinct (unique xs)"
  by (induction xs rule: unique.induct) auto

lemma unique_eq_Nil [simp]: "unique xs = [] \<longleftrightarrow> xs = []"
  by (cases xs) auto

lemma fold_upd_map_of:
  "fold (\<lambda>(k, v) m. m(k \<mapsto> v)) kvs m = m ++ map_of (rev kvs)"
  by (induction kvs arbitrary: m) (auto simp: map_add_upd_left)

lemma dict_of_map_of: "dict_of kvs = map_of (rev kvs)"
  by (simp add: dict_of_def fold_upd_map_of)

lemma keys_enumerate:
  "map fst (map (\<lambda>(i, k). (k, f i)) (enumerate_from0 ks)) = ks"
  by (rule nth_equalityI) (simp_all add: enumerate_from0_def)

lemma dict_of_enumerate:
  assumes "distinct ks" and "i < length ks"
  shows "dict_of (map (\<lambda>(i, k). (k, f i)) (enumerate_from0 ks)) (ks ! i) = Some (f i)"
proof -
  let ?kvs = "map (\<lambda>(i, k). (k, f i)) (enumerate_from0 ks)"
  have "(ks ! i, f i) \<in> set (rev ?kvs)"
    using assms(2) by (force simp: enumerate_from0_def set_zip)
  moreover have "distinct (map fst (rev ?kvs))"
    using assms(1) by (simp only: rev_map [symmetric] keys_enumerate distinct_rev)
  ultimately show ?thesis
    by (simp add: dict_of_map_of)
qed

lemma dom_dict_of_enumerate:
  "dom (dict_of (map (\<lambda>(i, k). (k, f i)) (enumerate_from0 ks))) = set ks"
proof -
  have "fst ` set (map (\<lambda>(i, k). (k, f i)) (enumerate_from0 ks)) = set ks"
    by (simp only: set_map [symmetric] keys_enumerate)
  then show ?thesis by (simp add: dict_of_map_of dom_map_of_conv_image_fst)
qed

lemma ran_dict_of_enumerate:
  assumes "distinct ks"
  shows "ran (dict_of (map (\<lambda>(i, k). (k, f i)) (enumerate_from0 ks))) = f ` {..<length ks}"
proof (rule set_eqI)
  fix v
  let ?d = "dict_of (map (\<lambda>(i, k). (k, f i)) (enumerate_from0 ks))"
  show "v \<in> ran ?d \<longleftrightarrow> v \<in> f ` {..<length ks}"
  proof
    assume "v \<in> ran ?d"
    then obtain k where k: "?d k = Some v" by (auto simp: ran_def)
    then have "k \<in> dom ?d" by blast
    then have "k \<in> set ks" by (simp only: dom_dict_of_enumerate)
    then obtain i where i: "i < length ks" "ks ! i = k" by (auto simp: in_set_conv_nth)
    with dict_of_enumerate [OF assms i(1), of f] k have "v = f i" by simp
    with i show "v \<in> f ` {..<length ks}" by blast
  next
    assume "v \<in> f ` {..<length ks}"
    then obtain i where i: "i < length ks" "v = f i" by blast
    with dict_of_enumerate [OF assms i(1), of f] show "v \<in> ran ?d"
      by (auto simp: ran_def)
  qed
qed

lemma bind_err_Inr [simp]: "bind_err (Inr x) f = f x"
  by (simp add: bind_err_def)

lemma bind_err_Inl [simp]: "bind_err (Inl e) f = Inl e"
  by (simp add: bind_err_def)

lemma bind_err_eq_Inr:
  "bind_err m f = Inr y \<longleftrightarrow> (\<exists>x. m = Inr x \<and> f x = Inr y)"
  by (cases m) auto

lemma traverse_Inr:
  "(\<And>x. x \<in> set xs \<Longrightarrow> f x = Inr (g x)) \<Longrightarrow> traverse f xs = Inr (map g xs)"
  by (induction xs) auto

lemma traverse_eq_Inr:
  "traverse f xs = Inr ys \<longleftrightarrow> list_all2 (\<lambda>x y. f x = Inr y) xs ys"
proof (induction xs arbitrary: ys)
  case Nil
  then show ?case by auto
next
  case (Cons x xs)
  then show ?case
    by (cases ys) (auto simp: bind_err_eq_Inr)
qed

lemma getitem_Some: "d k = Some v \<Longrightarrow> getitem d k = Inr v"
  by (simp add: getitem_def)

lemma split_not_Nil [simp]: "split sep s \<noteq> []"
  by (induction s) (auto split: list.splits)


lemma fold_append_concat:
  "fold (\<lambda>p acc. acc @ g p) ps a = a @ concat (map g ps)"
  by (induction ps arbitrary: a) auto

lemma top_df_concat:
  "top_df df =
     concat (map (\<lambda>p. nlargest 5 (filter (\<lambda>r. prompt r = p) (df_numbered df))) (prompts df))"
  by (simp add: top_df_def fold_append_concat)

lemma set_nlargest: "set (nlargest n d) \<subseteq> set d"
  using set_take_subset [of n "sort_key (\<lambda>r. - f1_harmonic_mean r) d"]
  by (simp add: nlargest_def)

lemma nlargest_Nil [simp]: "nlargest n [] = []"
  by (simp add: nlargest_def)

lemma concat_single:
  "distinct ps \<Longrightarrow> concat (map (\<lambda>q. if q = p then ys else []) ps) = (if p \<in> set ps then ys else [])"
  by (induction ps) auto

lemma filter_nlargest_prompt:
  "filter (\<lambda>r. prompt r = p) (nlargest n (filter (\<lambda>r. prompt r = q) d)) =
     (if q = p then nlargest n (filter (\<lambda>r. prompt r = p) d) else [])"
proof -
  have "\<forall>r \<in> set (nlargest n (filter (\<lambda>r. prompt r = q) d)). prompt r = q"
    using set_nlargest [of n "filter (\<lambda>r. prompt r = q) d"] by auto
  then have all: "\<And>r. r \<in> set (nlargest n (filter (\<lambda>r. prompt r = q) d)) \<Longrightarrow> prompt r = q"
    by blast
  show ?thesis
  proof (cases "q = p")
    case True
    have "filter (\<lambda>r. prompt r = p) (nlargest n (filter (\<lambda>r. prompt r = p) d)) =
            nlargest n (filter (\<lambda>r. prompt r = p) d)"
      by (rule filter_True) (use all True in blast)
    with True show ?thesis by simp
  next
    case False
    have "filter (\<lambda>r. prompt r = p) (nlargest n (filter (\<lambda>r. prompt r = q) d)) = []"
      by (rule filter_False) (use all False in blast)
    with False show ?thesis by simp
  qed
qed

lemma prompt_df_numbered [simp]: "map prompt (df_numbered df) = map prompt df"
  by (simp add: df_numbered_def)

lemma record_of_upd [simp]: "record_of (r\<lparr>prompt_numeric := x\<rparr>) = record_of r"
  by (simp add: record_of_def)

lemma score_record_of [simp]: "score (record_of r) = f1_harmonic_mean r"
  by (simp add: record_of_def score_def)

lemma filter_prompt_df_numbered:
  "map record_of (filter (\<lambda>r. prompt r = p) (df_numbered df)) =
     map record_of (filter (\<lambda>r. prompt r = p) df)"
  unfolding df_numbered_def by (simp add: filter_map comp_def)

lemma filter_top_df:
  "filter (\<lambda>r. prompt r = p) (top_df df) =
     nlargest 5 (filter (\<lambda>r. prompt r = p) (df_numbered df))"
proof -
  let ?cand = "\<lambda>q. filter (\<lambda>r. prompt r = q) (df_numbered df)"
  have "filter (\<lambda>r. prompt r = p) (top_df df) =
          concat (map (\<lambda>q. if q = p then nlargest 5 (?cand p) else []) (prompts df))"
    by (simp add: top_df_concat filter_concat comp_def filter_nlargest_prompt)
  also have "\<dots> = (if p \<in> set (prompts df) then nlargest 5 (?cand p) else [])"
    by (rule concat_single) (simp add: prompts_def)
  also have "\<dots> = nlargest 5 (?cand p)"
  proof (cases "p \<in> set (prompts df)")
    case False
    then have "p \<notin> set (map prompt (df_numbered df))"
      unfolding prompt_df_numbered by (simp add: prompts_def)
    then have "?cand p = []" unfolding set_map by (auto simp: filter_empty_conv)
    with False show ?thesis by simp
  qed simp
  finally show ?thesis .
qed

lemma mset_nlargest_split:
  "mset d = mset (nlargest n d) + mset (drop n (sort_key (\<lambda>r. - f1_harmonic_mean r) d))"
proof -
  let ?s = "sort_key (\<lambda>r. - f1_harmonic_mean r) d"
  have "mset (take n ?s @ drop n ?s) = mset d"
    by (simp only: append_take_drop_id mset_sort)
  then show ?thesis
    by (simp only: mset_append nlargest_def)
qed

lemma mset_nlargest_rest:
  "mset d - mset (nlargest n d) = mset (drop n (sort_key (\<lambda>r. - f1_harmonic_mean r) d))"
  by (subst mset_nlargest_split [of d n]) simp

lemma mset_nlargest_subset: "mset (nlargest n d) \<subseteq># mset d"
  using mset_nlargest_split [of d n] mset_subset_eq_add_left by metis

lemma nlargest_dominates:
  assumes "k \<in> set (nlargest n d)"
    and "e \<in> set (drop n (sort_key (\<lambda>r. - f1_harmonic_mean r) d))"
  shows "f1_harmonic_mean e \<le> f1_harmonic_mean k"
proof -
  let ?s = "sort_key (\<lambda>r. - f1_harmonic_mean r) d"
  have "sorted (map (\<lambda>r. - f1_harmonic_mean r) (take n ?s @ drop n ?s))"
    by simp
  then have "\<forall>x \<in> set (take n ?s). \<forall>y \<in> set (drop n ?s).
               - f1_harmonic_mean x \<le> - f1_harmonic_mean y"
    unfolding map_append sorted_append by auto
  with assms show ?thesis by (auto simp: nlargest_def)
qed

lemma length_nlargest: "length (nlargest n d) = min n (length d)"
  by (simp add: nlargest_def min.commute)


lemma first_letters_Inr:
  "first_letters ws = Inr cs \<longleftrightarrow> [] \<notin> set ws \<and> cs = map (\<lambda>w. upper (hd w)) ws"
proof (induction ws arbitrary: cs)
  case Nil
  then show ?case by auto
next
  case (Cons w ws)
  show ?case
  proof (cases w)
    case Nil
    then show ?thesis by simp
  next
    case (Cons c w')
    then show ?thesis
      using Cons.IH by (auto simp: bind_err_eq_Inr)
  qed
qed

lemma first_letters_Inl:
  "first_letters ws = Inl e \<Longrightarrow> e = IndexError \<and> [] \<in> set ws"
proof (induction ws)
  case Nil
  then show ?case by simp
next
  case (Cons w ws)
  show ?case
  proof (cases w)
    case Nil
    with Cons.prems show ?thesis by simp
  next
    case (Cons c w')
    show ?thesis
    proof (cases "first_letters ws")
      case (Inl e')
      with Cons.prems \<open>w = c # w'\<close> have "e' = e" by simp
      with Inl Cons.IH show ?thesis by simp
    next
      case (Inr cs)
      with Cons.prems \<open>w = c # w'\<close> show ?thesis by simp
    qed
  qed
qed

lemma abbreviate_Inr:
  "abbreviate p = Inr a \<longleftrightarrow> [] \<notin> set (split CHR ''_'' p) \<and> a = initials (split CHR ''_'' p)"
  by (simp add: abbreviate_def first_letters_Inr initials_def)

lemma abbreviate_cases:
  "abbreviate p = (if [] \<in> set (split CHR ''_'' p) then Inl IndexError else Inr (initials (split CHR ''_'' p)))"
proof (cases "abbreviate p")
  case (Inl e)
  then show ?thesis
    using first_letters_Inl [of "split CHR ''_'' p" e] by (simp add: abbreviate_def)
next
  case (Inr a)
  then show ?thesis by (simp add: abbreviate_Inr)
qed

lemma abbrev_loop_Inr:
  "\<forall>p \<in> set ps. [] \<notin> set (split CHR ''_'' p) \<Longrightarrow>
     abbrev_loop ps d = Inr (\<lambda>q. if q \<in> set ps then Some (initials (split CHR ''_'' q)) else d q)"
proof (induction ps arbitrary: d)
  case Nil
  then show ?case by simp
next
  case (Cons p ps)
  then have "abbrev_loop (p # ps) d =
               Inr (\<lambda>q. if q \<in> set ps then Some (initials (split CHR ''_'' q)) else (d(p \<mapsto> initials (split CHR ''_'' p))) q)"
    by (simp add: abbreviate_cases)
  also have "(\<lambda>q. if q \<in> set ps then Some (initials (split CHR ''_'' q)) else (d(p \<mapsto> initials (split CHR ''_'' p))) q) =
             (\<lambda>q. if q \<in> set (p # ps) then Some (initials (split CHR ''_'' q)) else d q)"
    by (rule ext) simp
  finally show ?case .
qed

lemma abbrev_loop_Inl:
  "\<exists>p \<in> set ps. [] \<in> set (split CHR ''_'' p) \<Longrightarrow> abbrev_loop ps d = Inl IndexError"
proof (induction ps arbitrary: d)
  case Nil
  then show ?case by simp
next
  case (Cons p ps)
  show ?case
  proof (cases "[] \<in> set (split CHR ''_'' p)")
    case True
    then show ?thesis by (simp add: abbreviate_cases)
  next
    case False
    with Cons.prems have "\<exists>p \<in> set ps. [] \<in> set (split CHR ''_'' p)" by simp
    with Cons.IH False show ?thesis by (simp add: abbreviate_cases)
  qed
qed

lemma prompt_abbrev_cases:
  "prompt_abbrev df =
     (if \<exists>p \<in> set (prompts df). [] \<in> set (split CHR ''_'' p) then Inl IndexError
      else Inr (\<lambda>q. if q \<in> set (prompts df) then Some (initials (split CHR ''_'' q)) else None))"
  using abbrev_loop_Inl [of "prompts df" Map.empty] abbrev_loop_Inr [of "prompts df" Map.empty]
  by (auto simp: prompt_abbrev_def)

lemma traverse_succeeds:
  "(\<And>x. x \<in> set xs \<Longrightarrow> \<exists>y. f x = Inr y) \<Longrightarrow> \<exists>ys. traverse f xs = Inr ys"
proof (induction xs)
  case Nil
  then show ?case by simp
next
  case (Cons x xs)
  then obtain y ys where "f x = Inr y" "traverse f xs = Inr ys"
    by (meson list.set_intros)
  then show ?case by simp
qed

lemma py_max_Max: "xs \<noteq> [] \<Longrightarrow> py_max xs = Inr (Max (set xs))"
proof (cases xs)
  case Nil
  then show "xs \<noteq> [] \<Longrightarrow> ?thesis" by simp
next
  case (Cons x ys)
  have "fold max ys x = Max (set (x # ys))"
    by (simp only: Max.set_eq_fold)
  with Cons show ?thesis by (simp add: py_max_def)
qed

lemma top_df_not_Nil: "df \<noteq> [] \<Longrightarrow> top_df df \<noteq> []"
proof
  assume "df \<noteq> []" and "top_df df = []"
  then obtain r rs where df: "df = r # rs" by (cases df) auto
  have "filter (\<lambda>x. prompt x = prompt r) (top_df df) =
          nlargest 5 (filter (\<lambda>x. prompt x = prompt r) (df_numbered df))"
    by (rule filter_top_df)
  then have "length (nlargest 5 (filter (\<lambda>x. prompt x = prompt r) (df_numbered df))) = 0"
    using \<open>top_df df = []\<close> by simp
  then have "filter (\<lambda>x. prompt x = prompt r) (df_numbered df) = []"
    unfolding length_nlargest by (cases "filter (\<lambda>x. prompt x = prompt r) (df_numbered df)") simp_all
  then have "prompt r \<notin> set (map prompt (df_numbered df))"
    unfolding set_map by (auto simp: filter_empty_conv)
  then show False
    unfolding prompt_df_numbered by (simp add: df)
qed

lemma prompts_Nil [simp]: "prompts df = [] \<longleftrightarrow> df = []"
  by (simp add: prompts_def)

lemma dom_llm_markers: "dom (llm_markers ls) = set ls"
  unfolding llm_markers_def by (simp only: dom_dict_of_enumerate set_sort)

lemma dom_decision_colors: "dom (decision_colors tdp) = set tdp"
  unfolding decision_colors_def by (simp only: dom_dict_of_enumerate set_sort)

lemma llm_markers_nth:
  assumes "distinct ls" and "i < length ls"
  shows "llm_markers ls (sort ls ! i) = Some (markers ! (i mod length markers))"
  unfolding llm_markers_def
  by (rule dict_of_enumerate) (use assms in simp_all)

lemma decision_colors_nth:
  assumes "distinct tdp" and "i < length tdp"
  shows "decision_colors tdp (sort tdp ! i) = Some (colors tdp ! i)"
  unfolding decision_colors_def
  by (rule dict_of_enumerate) (use assms in simp_all)

lemma getitem_dom: "k \<in> dom d \<Longrightarrow> \<exists>v. getitem d k = Inr v"
  by (auto simp: getitem_def)

lemma getitem_eq_Inr: "getitem d k = Inr v \<longleftrightarrow> d k = Some v"
  by (simp add: getitem_def split: option.splits)

lemma scatter_one_succeeds:
  assumes "snd ld \<in> dom dc" and "fst ld \<in> dom lm"
  shows "\<exists>y. scatter_one tdf lm dc ld = Inr y"
proof -
  from assms obtain col m where "getitem dc (snd ld) = Inr col" "getitem lm (fst ld) = Inr m"
    using getitem_dom by meson
  then show ?thesis by (simp add: scatter_one_def Let_def)
qed

lemma scatter_all_succeeds:
  "\<exists>sc. scatter_all tdf (llm_markers ls) (decision_colors tdp) ls tdp = Inr sc"
proof -
  have "\<exists>drawn. traverse (scatter_one tdf (llm_markers ls) (decision_colors tdp))
                  (List.product (sort ls) (sort tdp)) = Inr drawn"
  proof (rule traverse_succeeds)
    fix ld assume "ld \<in> set (List.product (sort ls) (sort tdp))"
    then have "fst ld \<in> set ls" "snd ld \<in> set tdp" by auto
    then show "\<exists>y. scatter_one tdf (llm_markers ls) (decision_colors tdp) ld = Inr y"
      by (intro scatter_one_succeeds) (simp_all only: dom_llm_markers dom_decision_colors)
  qed
  then show ?thesis by (auto simp: scatter_all_def)
qed

lemma llm_legend_elements_succeeds:
  "\<exists>le. llm_legend_elements (llm_markers ls) ls = Inr le"
  unfolding llm_legend_elements_def
proof (rule traverse_succeeds)
  fix l assume "l \<in> set (sort ls)"
  then have "l \<in> dom (llm_markers ls)" by (simp only: dom_llm_markers set_sort)
  then obtain m where "getitem (llm_markers ls) l = Inr m" using getitem_dom by meson
  then show "\<exists>y. bind_err (getitem (llm_markers ls) l)
           (\<lambda>m. Inr \<lparr>le_marker = m, le_markerfacecolor = ''gray'',
                       le_label = legend_model_name l\<rparr>) = Inr y"
    by simp
qed

lemma decision_legend_elements_succeeds:
  "\<exists>le. decision_legend_elements (decision_colors tdp) tdp = Inr le"
  unfolding decision_legend_elements_def
proof (rule traverse_succeeds)
  fix d assume "d \<in> set (sort tdp)"
  then have "d \<in> dom (decision_colors tdp)" by (simp only: dom_decision_colors set_sort)
  then obtain col where "getitem (decision_colors tdp) d = Inr col" using getitem_dom by meson
  then show "\<exists>y. bind_err (getitem (decision_colors tdp) d)
           (\<lambda>col. Inr \<lparr>le_marker = ''o'', le_markerfacecolor = col,
                       le_label = replace CHR ''_'' CHR '' '' d\<rparr>) = Inr y"
    by simp
qed

lemma xticklabels_ok:
  assumes "\<forall>p \<in> set (prompts df). [] \<notin> set (split CHR ''_'' p)"
  shows "prompt_abbrev df = Inr pa \<Longrightarrow>
         traverse (getitem pa) (sort (prompts df)) = Inr (map (\<lambda>p. initials (split CHR ''_'' p)) (sort (prompts df)))"
proof -
  assume "prompt_abbrev df = Inr pa"
  with assms have pa: "pa = (\<lambda>q. if q \<in> set (prompts df) then Some (initials (split CHR ''_'' q)) else None)"
    by (simp add: prompt_abbrev_cases)
  show ?thesis
    by (rule traverse_Inr) (simp add: pa getitem_def)
qed

lemma build_figure_InrD:
  assumes "build_figure df = Inr fig"
  shows "\<exists>pa ls tdp sc le1 le2 labels m.
    prompt_abbrev df = Inr pa \<and> top_llms df = Inr ls \<and> top_decision_points df = Inr tdp \<and>
    scatter_all (top_df df) (llm_markers ls) (decision_colors tdp) ls tdp = Inr sc \<and>
    llm_legend_elements (llm_markers ls) ls = Inr le1 \<and>
    decision_legend_elements (decision_colors tdp) tdp = Inr le2 \<and>
    traverse (getitem pa) (sort (prompts df)) = Inr labels \<and>
    py_max (map f1_harmonic_mean (top_df df)) = Inr m \<and>
    fig = \<lparr>fig_scatter = sc,
            fig_llm_legend = take (length ls) (le1 @ le2),
            fig_decision_legend = drop (length ls) (le1 @ le2),
            fig_xticks = [0..<length (prompts df)],
            fig_xticklabels = labels,
            fig_ylim = set_ylim 0.5 (m * 1.05)\<rparr>"
  using assms unfolding build_figure_def bind_err_eq_Inr sum.inject
  by (elim exE conjE) (intro exI conjI; (assumption | (rule sym, assumption)))

lemma build_figure_raises:
  "build_figure df =
     (if \<exists>p \<in> set (prompts df). [] \<in> set (split CHR ''_'' p) then Inl IndexError
      else if df = [] then Inl KeyError
      else Inr (projr (build_figure df)))"
proof (cases "\<exists>p \<in> set (prompts df). [] \<in> set (split CHR ''_'' p)")
  case True
  then show ?thesis by (simp add: build_figure_def prompt_abbrev_cases)
next
  case no_empty: False
  show ?thesis
  proof (cases "df = []")
    case True
    then show ?thesis
      by (simp add: build_figure_def prompt_abbrev_cases top_llms_def prompts_def)
  next
    case False
    define ls where "ls = unique (map llm (top_df df))"
    define tdp where "tdp = unique (map ssvc_decision_point (top_df df))"
    define pa where "pa = (\<lambda>q. if q \<in> set (prompts df) then Some (initials (split CHR ''_'' q)) else None)"
    have 1: "prompt_abbrev df = Inr pa"
      using no_empty by (simp add: prompt_abbrev_cases pa_def)
    have 2: "top_llms df = Inr ls" "top_decision_points df = Inr tdp"
      using False by (simp_all add: top_llms_def top_decision_points_def ls_def tdp_def)
    obtain sc where 3: "scatter_all (top_df df) (llm_markers ls) (decision_colors tdp) ls tdp = Inr sc"
      using scatter_all_succeeds by blast
    obtain le1 where 4: "llm_legend_elements (llm_markers ls) ls = Inr le1"
      using llm_legend_elements_succeeds by blast
    obtain le2 where 5: "decision_legend_elements (decision_colors tdp) tdp = Inr le2"
      using decision_legend_elements_succeeds by blast
    have 6: "traverse (getitem pa) (sort (prompts df)) = Inr (map (\<lambda>p. initials (split CHR ''_'' p)) (sort (prompts df)))"
      using no_empty 1 by (intro xticklabels_ok) auto
    have 7: "py_max (map f1_harmonic_mean (top_df df)) =
               Inr (Max (set (map f1_harmonic_mean (top_df df))))"
      using top_df_not_Nil [OF False] by (intro py_max_Max) simp
    have "\<exists>fig. build_figure df = Inr fig"
      unfolding build_figure_def by (simp only: 1 2 3 4 5 6 7 bind_err_Inr) blast
    then show ?thesis using no_empty False by auto
  qed
qed

lemma split_sep_Cons [simp]: "split sep (sep # s) = [] # split sep s"
  by simp

lemma empty_word_after_sep:
  "[] \<in> set (split sep u) \<Longrightarrow> [] \<in> set (tl (split sep (s @ sep # u)))"
proof (induction s)
  case Nil
  then show ?case by simp
next
  case (Cons c s)
  then have IH: "[] \<in> set (tl (split sep (s @ sep # u)))" by simp
  show ?case
  proof (cases "c = sep")
    case True
    with IH show ?thesis by (auto dest: list.set_sel(2) [rotated])
  next
    case False
    with IH show ?thesis
      by (cases "split sep (s @ sep # u)") simp_all
  qed
qed

lemma empty_word_examples:
  "[] \<in> set (split sep [])"
  "[] \<in> set (split sep (sep # s))"
  "[] \<in> set (split sep (s @ [sep]))"
  "[] \<in> set (split sep (s @ sep # sep # t))"
proof -
  show "[] \<in> set (split sep [])" "[] \<in> set (split sep (sep # s))" by simp_all
  have "[] \<in> set (tl (split sep (s @ sep # [])))"
    by (rule empty_word_after_sep) simp
  then show "[] \<in> set (split sep (s @ [sep]))"
    by (meson list.set_sel(2) split_not_Nil)
  have "[] \<in> set (tl (split sep (s @ sep # sep # t)))"
    by (rule empty_word_after_sep) simp
  then show "[] \<in> set (split sep (s @ sep # sep # t))"
    by (meson list.set_sel(2) split_not_Nil)
qed

lemma build_figure_succeeds:
  assumes "df \<noteq> []" and "\<forall>p \<in> set (prompts df). [] \<notin> set (split CHR ''_'' p)"
  shows "\<exists>fig. build_figure df = Inr fig"
  using assms build_figure_raises [of df] by metis

lemma build_figure_IndexError:
  "build_figure df = Inl IndexError \<longleftrightarrow> (\<exists>p \<in> set (prompts df). [] \<in> set (split CHR ''_'' p))"
  using build_figure_raises [of df] by (auto split: if_splits)







lemma export_eq:
  "export ok =
     (takeWhile ok output_files,
      case dropWhile ok output_files of [] \<Rightarrow> None | f # _ \<Rightarrow> Some (SaveError f))"
  by (simp add: export_def savefig_def output_files_def)

lemma main_eq:
  "main ok df =
     (case build_figure df of
        Inl e \<Rightarrow> ([], Some e)
      | Inr fig \<Rightarrow>
          (takeWhile ok output_files,
           case dropWhile ok output_files of [] \<Rightarrow> None | f # _ \<Rightarrow> Some (SaveError f)))"
  by (simp add: main_def export_eq split: sum.splits)

lemma split_no_sep: "sep \<notin> set w \<Longrightarrow> split sep w = [w]"
  by (induction w) auto

lemma split_word_sep: "sep \<notin> set w \<Longrightarrow> split sep (w @ sep # t) = w # split sep t"
  by (induction w) auto

lemma split_join:
  "ws \<noteq> [] \<Longrightarrow> \<forall>w \<in> set ws. sep \<notin> set w \<Longrightarrow> split sep (join sep ws) = ws"
proof (induction sep ws rule: join.induct)
  case (1 sep)
  then show ?case by simp
next
  case (2 sep w)
  then show ?case by (simp add: split_no_sep)
next
  case (3 sep w v ws)
  then have "split sep (join sep (v # ws)) = v # ws" by simp
  with 3 show ?case by (simp add: split_word_sep)
qed

lemma dom_prompt_abbrev:
  assumes "prompt_abbrev df = Inr pa"
  shows "pa = (\<lambda>q. if q \<in> set (prompts df) then Some (initials (split CHR ''_'' q)) else None)"
  using assms by (simp add: prompt_abbrev_cases split: if_splits)

lemma cyclic_image:
  assumes "pal \<noteq> []"
  shows "(\<lambda>i. pal ! (i mod length pal)) ` {..<n} = (\<lambda>i. pal ! i) ` {..<min n (length pal)}"
proof (rule set_eqI, rule iffI)
  fix v
  assume "v \<in> (\<lambda>i. pal ! (i mod length pal)) ` {..<n}"
  then obtain i where i: "i < n" "v = pal ! (i mod length pal)" by blast
  from assms have "i mod length pal < length pal" by simp
  moreover have "i mod length pal \<le> i" by (rule mod_less_eq_dividend)
  ultimately have "i mod length pal < min n (length pal)" using i(1) by linarith
  with i(2) show "v \<in> (\<lambda>i. pal ! i) ` {..<min n (length pal)}" by blast
next
  fix v
  assume "v \<in> (\<lambda>i. pal ! i) ` {..<min n (length pal)}"
  then obtain i where i: "i < n" "i < length pal" "v = pal ! i" by auto
  then have "v = pal ! (i mod length pal)" by simp
  with i(1) show "v \<in> (\<lambda>i. pal ! (i mod length pal)) ` {..<n}" by blast
qed

lemma cyclic_image_card:
  assumes "pal \<noteq> []" and "distinct pal"
  shows "card ((\<lambda>i. pal ! (i mod length pal)) ` {..<n}) = min n (length pal)"
proof -
  have "inj_on (\<lambda>i. pal ! i) {..<min n (length pal)}"
    using assms(2) by (intro inj_on_nth) simp_all
  then have "card ((\<lambda>i. pal ! i) ` {..<min n (length pal)}) = min n (length pal)"
    by (simp add: card_image)
  then show ?thesis by (simp only: cyclic_image [OF assms(1)])
qed

lemma length_markers: "length markers = 12"
  by (simp add: markers_def)

lemma distinct_markers: "distinct markers"
  by (simp add: markers_def)

lemma length_colorblind: "length colorblind = 10"
  by (simp add: colorblind_def)

lemma distinct_colorblind: "distinct colorblind"
  by (simp add: colorblind_def)

lemma length_colors: "length (colors tdp) = length tdp"
  by (simp add: colors_def color_palette_def)

lemma colors_nth: "i < length tdp \<Longrightarrow> colors tdp ! i = colorblind ! (i mod 10)"
  by (simp add: colors_def color_palette_def length_colorblind)

lemma card_ran_llm_markers:
  assumes "distinct ls"
  shows "card (ran (llm_markers ls)) = min (length ls) 12"
proof -
  have "ran (llm_markers ls) = (\<lambda>i. markers ! (i mod length markers)) ` {..<length (sort ls)}"
    unfolding llm_markers_def by (rule ran_dict_of_enumerate) (simp add: assms)
  moreover have "markers \<noteq> []" by (simp add: markers_def)
  ultimately show ?thesis
    using cyclic_image_card [OF _ distinct_markers, of "length ls"]
    by (simp add: length_markers)
qed

lemma card_ran_decision_colors:
  assumes "distinct tdp"
  shows "card (ran (decision_colors tdp)) = min (length tdp) 10"
proof -
  have "ran (decision_colors tdp) = (\<lambda>i. colors tdp ! i) ` {..<length (sort tdp)}"
    unfolding decision_colors_def by (rule ran_dict_of_enumerate) (simp add: assms)
  also have "\<dots> = (\<lambda>i. colorblind ! (i mod length colorblind)) ` {..<length tdp}"
    by (rule image_cong) (simp_all add: colors_nth length_colorblind)
  finally have "ran (decision_colors tdp) =
                  (\<lambda>i. colorblind ! (i mod length colorblind)) ` {..<length tdp}" .
  moreover have "colorblind \<noteq> []" by (simp add: colorblind_def)
  ultimately show ?thesis
    using cyclic_image_card [OF _ distinct_colorblind, of "length tdp"]
    by (simp add: length_colorblind)
qed

lemma top_llms_InrD:
  assumes "top_llms df = Inr ls"
  shows "distinct ls" and "set ls = llm ` set (top_df df)" and "df \<noteq> []"
    and "ls = unique (map llm (top_df df))"
  using assms by (auto simp: top_llms_def split: if_splits)

lemma top_decision_points_InrD:
  assumes "top_decision_points df = Inr tdp"
  shows "distinct tdp" and "set tdp = ssvc_decision_point ` set (top_df df)" and "df \<noteq> []"
    and "tdp = unique (map ssvc_decision_point (top_df df))"
  using assms by (auto simp: top_decision_points_def split: if_splits)

lemma traverse_length: "traverse f xs = Inr ys \<Longrightarrow> length ys = length xs"
  by (simp add: traverse_eq_Inr list_all2_lengthD)

lemma traverse_nth: "traverse f xs = Inr ys \<Longrightarrow> i < length xs \<Longrightarrow> f (xs ! i) = Inr (ys ! i)"
  unfolding traverse_eq_Inr by (drule list_all2_nthD [where p = i]) simp_all

lemma fig_legends:
  assumes "build_figure df = Inr fig" and "top_llms df = Inr ls"
    and "top_decision_points df = Inr tdp"
  shows "llm_legend_elements (llm_markers ls) ls = Inr (fig_llm_legend fig)"
    and "decision_legend_elements (decision_colors tdp) tdp = Inr (fig_decision_legend fig)"
proof -
  from build_figure_InrD [OF assms(1)] assms(2,3) obtain le1 le2
    where le1: "llm_legend_elements (llm_markers ls) ls = Inr le1"
      and le2: "decision_legend_elements (decision_colors tdp) tdp = Inr le2"
      and l1: "fig_llm_legend fig = take (length ls) (le1 @ le2)"
      and l2: "fig_decision_legend fig = drop (length ls) (le1 @ le2)"
    by force
  from le1 have "length le1 = length ls"
    unfolding llm_legend_elements_def by (simp add: traverse_length)
  with l1 l2 have "fig_llm_legend fig = le1" "fig_decision_legend fig = le2" by simp_all
  with le1 le2 show "llm_legend_elements (llm_markers ls) ls = Inr (fig_llm_legend fig)"
    and "decision_legend_elements (decision_colors tdp) tdp = Inr (fig_decision_legend fig)"
    by simp_all
qed

lemma llm_legend_elements_eq:
  assumes "distinct ls" and "llm_legend_elements (llm_markers ls) ls = Inr le"
  shows "le = map (\<lambda>i. \<lparr>le_marker = markers ! (i mod 12), le_markerfacecolor = ''gray'',
                         le_label = legend_model_name (sort ls ! i)\<rparr>) [0..<length ls]"
proof (rule nth_equalityI)
  from assms(2) show len: "length le = length (map (\<lambda>i. \<lparr>le_marker = markers ! (i mod 12),
      le_markerfacecolor = ''gray'', le_label = legend_model_name (sort ls ! i)\<rparr>) [0..<length ls])"
    unfolding llm_legend_elements_def by (simp add: traverse_length)
  fix i assume "i < length le"
  with len have i: "i < length ls" by simp
  from assms(2) i have "bind_err (getitem (llm_markers ls) (sort ls ! i))
      (\<lambda>m. Inr \<lparr>le_marker = m, le_markerfacecolor = ''gray'',
                 le_label = legend_model_name (sort ls ! i)\<rparr>) = Inr (le ! i)"
    unfolding llm_legend_elements_def using traverse_nth [of _ "sort ls" le i] by simp
  moreover have "getitem (llm_markers ls) (sort ls ! i) = Inr (markers ! (i mod 12))"
    using llm_markers_nth [OF assms(1) i] by (simp add: getitem_eq_Inr length_markers)
  ultimately show "le ! i = map (\<lambda>i. \<lparr>le_marker = markers ! (i mod 12),
      le_markerfacecolor = ''gray'', le_label = legend_model_name (sort ls ! i)\<rparr>) [0..<length ls] ! i"
    using i by simp
qed

lemma decision_legend_elements_eq:
  assumes "distinct tdp" and "decision_legend_elements (decision_colors tdp) tdp = Inr le"
  shows "le = map (\<lambda>i. \<lparr>le_marker = ''o'', le_markerfacecolor = colors tdp ! i,
                         le_label = replace CHR ''_'' CHR '' '' (sort tdp ! i)\<rparr>) [0..<length tdp]"
proof (rule nth_equalityI)
  from assms(2) show len: "length le = length (map (\<lambda>i. \<lparr>le_marker = ''o'',
      le_markerfacecolor = colors tdp ! i,
      le_label = replace CHR ''_'' CHR '' '' (sort tdp ! i)\<rparr>) [0..<length tdp])"
    unfolding decision_legend_elements_def by (simp add: traverse_length)
  fix i assume "i < length le"
  with len have i: "i < length tdp" by simp
  from assms(2) i have "bind_err (getitem (decision_colors tdp) (sort tdp ! i))
      (\<lambda>col. Inr \<lparr>le_marker = ''o'', le_markerfacecolor = col,
                 le_label = replace CHR ''_'' CHR '' '' (sort tdp ! i)\<rparr>) = Inr (le ! i)"
    unfolding decision_legend_elements_def using traverse_nth [of _ "sort tdp" le i] by simp
  moreover have "getitem (decision_colors tdp) (sort tdp ! i) = Inr (colors tdp ! i)"
    using decision_colors_nth [OF assms(1) i] by (simp add: getitem_eq_Inr)
  ultimately show "le ! i = map (\<lambda>i. \<lparr>le_marker = ''o'', le_markerfacecolor = colors tdp ! i,
      le_label = replace CHR ''_'' CHR '' '' (sort tdp ! i)\<rparr>) [0..<length tdp] ! i"
    using i by simp
qed

lemma index_in_nth:
  assumes "distinct xs" and "i < length xs"
  shows "index_in xs (xs ! i) = i"
proof -
  have "takeWhile (\<lambda>y. y \<noteq> xs ! i) xs = take i xs"
  proof (rule takeWhile_eq_take_P_nth)
    fix j assume "j < i" "j < length xs"
    with assms show "xs ! j \<noteq> xs ! i"
      by (simp add: nth_eq_iff_index_eq)
  qed simp
  with assms(2) show ?thesis by (simp add: index_in_def)
qed

lemma index_in_less:
  assumes "x \<in> set xs"
  shows "index_in xs x < length xs" and "xs ! index_in xs x = x"
proof -
  have "takeWhile (\<lambda>y. y \<noteq> x) xs \<noteq> xs"
    using assms by (auto simp: takeWhile_eq_all_conv)
  then show less: "index_in xs x < length xs"
    unfolding index_in_def
    by (metis length_takeWhile_le le_neq_implies_less takeWhile_eq_take take_all_iff)
  then show "xs ! index_in xs x = x"
    unfolding index_in_def using nth_length_takeWhile [of "\<lambda>y. y \<noteq> x" xs] by simp
qed

lemma prompt_mapping_eq:
  assumes "p \<in> set (prompts df)"
  shows "prompt_mapping df p = Some (index_in (sort (prompts df)) p)"
proof -
  let ?s = "sort (prompts df)"
  have d: "distinct ?s" by (simp add: prompts_def)
  from assms have "p \<in> set ?s" by simp
  then obtain i where i: "i < length ?s" "?s ! i = p"
    unfolding in_set_conv_nth by blast
  have "prompt_mapping df (?s ! i) = Some i"
    unfolding prompt_mapping_def by (rule dict_of_enumerate [OF d i(1)])
  moreover have "index_in ?s (?s ! i) = i"
    by (rule index_in_nth [OF d i(1)])
  ultimately show ?thesis using i(2) by simp
qed

lemma set_top_df: "set (top_df df) \<subseteq> set (df_numbered df)"
proof
  fix r assume "r \<in> set (top_df df)"
  then obtain p where
    "r \<in> set (nlargest 5 (filter (\<lambda>r. prompt r = p) (df_numbered df)))"
    unfolding top_df_concat by auto
  with set_nlargest [of 5 "filter (\<lambda>r. prompt r = p) (df_numbered df)"]
  show "r \<in> set (df_numbered df)" by auto
qed

lemma prompt_numeric_df_numbered:
  assumes "r \<in> set (df_numbered df)"
  shows "prompt_numeric r = Some (index_in (sort (prompts df)) (prompt r))"
    and "prompt r \<in> set (prompts df)"
proof -
  from assms obtain r0 where r0: "r0 \<in> set df"
    "r = r0\<lparr>prompt_numeric := prompt_mapping df (prompt r0)\<rparr>"
    unfolding df_numbered_def by auto
  then have p: "prompt r = prompt r0" "prompt_numeric r = prompt_mapping df (prompt r0)"
    by simp_all
  from r0(1) show "prompt r \<in> set (prompts df)"
    by (simp add: prompts_def p(1))
  then show "prompt_numeric r = Some (index_in (sort (prompts df)) (prompt r))"
    using prompt_mapping_eq [of "prompt r" df] p by simp
qed

lemma mset_concat_partition:
  "distinct ks \<Longrightarrow> \<forall>r \<in> set T. key r \<in> set ks \<Longrightarrow>
     mset (concat (map (\<lambda>k. filter (\<lambda>r. key r = k) T) ks)) = mset T"
proof (induction ks arbitrary: T)
  case Nil
  then have "T = []" by (cases T) auto
  then show ?case by simp
next
  case (Cons k ks)
  let ?T' = "filter (\<lambda>r. key r \<noteq> k) T"
  have eq1: "map (\<lambda>k'. filter (\<lambda>r. key r = k') T) ks =
             map (\<lambda>k'. filter (\<lambda>r. key r = k') ?T') ks"
  proof (rule map_cong [OF refl])
    fix k' assume "k' \<in> set ks"
    with Cons.prems(1) have "k' \<noteq> k" by auto
    then show "filter (\<lambda>r. key r = k') T = filter (\<lambda>r. key r = k') ?T'"
      by (induction T) auto
  qed
  have eq2: "mset (concat (map (\<lambda>k'. filter (\<lambda>r. key r = k') ?T') ks)) = mset ?T'"
    using Cons.prems by (intro Cons.IH) auto
  have "mset (concat (map (\<lambda>k. filter (\<lambda>r. key r = k) T) (k # ks))) =
          mset (filter (\<lambda>r. key r = k) T) +
          mset (concat (map (\<lambda>k. filter (\<lambda>r. key r = k) T) ks))"
    by (simp only: list.map concat.simps mset_append)
  also have "\<dots> = mset (filter (\<lambda>r. key r = k) T) + mset ?T'"
    by (simp only: eq1 eq2)
  also have "\<dots> = mset T"
    by (simp only: mset_filter multiset_partition [symmetric])
  finally show ?case .
qed

lemma concat_map_filter_id:
  "concat (map g (List.map_filter (\<lambda>s. s) ys)) =
     concat (map (\<lambda>y. case y of None \<Rightarrow> [] | Some s \<Rightarrow> g s) ys)"
  by (induction ys) (auto split: option.splits)

lemma zip_map_same: "zip (map f xs) (map g xs) = map (\<lambda>x. (f x, g x)) xs"
  by (induction xs) auto

lemma scatter_one_points:
  assumes "scatter_one tdf lm dc ld = Inr y"
  shows "(case y of None \<Rightarrow> [] | Some s \<Rightarrow> zip (sc_x s) (sc_y s)) =
           map (\<lambda>r. (prompt_numeric r, f1_harmonic_mean r))
             (filter (\<lambda>r. (llm r, ssvc_decision_point r) = ld) tdf)"
proof -
  let ?subset = "filter (\<lambda>r. llm r = fst ld \<and> ssvc_decision_point r = snd ld) tdf"
  have same: "filter (\<lambda>r. (llm r, ssvc_decision_point r) = ld) tdf = ?subset"
    by (rule filter_cong) auto
  show ?thesis
  proof (cases "?subset = []")
    case True
    with assms have "y = None" by (simp add: scatter_one_def)
    with True same show ?thesis by simp
  next
    case False
    with assms obtain col m where
      "y = Some \<lparr>sc_x = map prompt_numeric ?subset, sc_y = map f1_harmonic_mean ?subset,
                 sc_c = replicate (length ?subset) col, sc_marker = m,
                 sc_label = last (split CHR ''/'' (fst ld)) @ '' - '' @ snd ld\<rparr>"
      by (auto simp: scatter_one_def Let_def bind_err_eq_Inr)
    then show ?thesis
      by (simp add: same zip_map_same)
  qed
qed

lemma scatter_all_points:
  assumes "scatter_all tdf lm dc ls tdp = Inr sc"
  shows "concat (map (\<lambda>s. zip (sc_x s) (sc_y s)) sc) =
           concat (map (\<lambda>ld. map (\<lambda>r. (prompt_numeric r, f1_harmonic_mean r))
                                (filter (\<lambda>r. (llm r, ssvc_decision_point r) = ld) tdf))
                    (List.product (sort ls) (sort tdp)))"
proof -
  from assms obtain drawn where
    drawn: "traverse (scatter_one tdf lm dc) (List.product (sort ls) (sort tdp)) = Inr drawn"
    and sc: "sc = List.map_filter (\<lambda>s. s) drawn"
    by (auto simp: scatter_all_def bind_err_eq_Inr)
  from drawn have "list_all2 (\<lambda>ld y. scatter_one tdf lm dc ld = Inr y)
                     (List.product (sort ls) (sort tdp)) drawn"
    by (simp only: traverse_eq_Inr)
  then have "map (\<lambda>y. case y of None \<Rightarrow> [] | Some s \<Rightarrow> zip (sc_x s) (sc_y s)) drawn =
             map (\<lambda>ld. map (\<lambda>r. (prompt_numeric r, f1_harmonic_mean r))
                          (filter (\<lambda>r. (llm r, ssvc_decision_point r) = ld) tdf))
               (List.product (sort ls) (sort tdp))"
    by (induction rule: list_all2_induct) (simp_all add: scatter_one_points)
  then show ?thesis
    unfolding sc concat_map_filter_id by simp
qed

lemma mset_points:
  assumes "build_figure df = Inr fig"
  shows "mset (points fig) =
           image_mset (\<lambda>r. (prompt_numeric r, f1_harmonic_mean r)) (mset (top_df df))"
proof -
  from build_figure_InrD [OF assms] obtain ls tdp where
    ls: "top_llms df = Inr ls" and tdp: "top_decision_points df = Inr tdp"
    and sc: "scatter_all (top_df df) (llm_markers ls) (decision_colors tdp) ls tdp =
               Inr (fig_scatter fig)"
    by force
  let ?k = "\<lambda>r. (prompt_numeric r, f1_harmonic_mean r)"
  let ?key = "\<lambda>r. (llm r, ssvc_decision_point r)"
  let ?pairs = "List.product (sort ls) (sort tdp)"
  have "points fig = concat (map (\<lambda>ld. map ?k (filter (\<lambda>r. ?key r = ld) (top_df df))) ?pairs)"
    unfolding points_def by (rule scatter_all_points [OF sc])
  also have "\<dots> = map ?k (concat (map (\<lambda>ld. filter (\<lambda>r. ?key r = ld) (top_df df)) ?pairs))"
    by (simp add: map_concat comp_def)
  finally have "mset (points fig) =
      image_mset ?k (mset (concat (map (\<lambda>ld. filter (\<lambda>r. ?key r = ld) (top_df df)) ?pairs)))"
    by simp
  moreover have "mset (concat (map (\<lambda>ld. filter (\<lambda>r. ?key r = ld) (top_df df)) ?pairs)) =
                   mset (top_df df)"
  proof (rule mset_concat_partition)
    show "distinct ?pairs"
      using top_llms_InrD(1) [OF ls] top_decision_points_InrD(1) [OF tdp]
      by (intro distinct_product) simp_all
    show "\<forall>r \<in> set (top_df df). ?key r \<in> set ?pairs"
      using top_llms_InrD(2) [OF ls] top_decision_points_InrD(2) [OF tdp] by simp
  qed
  ultimately show ?thesis by simp
qed


lemma xticks_positions:
  assumes "distinct xs"
  shows "[0..<length xs] = map (index_in xs) xs"
  by (rule nth_equalityI) (simp_all add: index_in_nth [OF assms])

lemma last_split_no_sep: "sep \<notin> set s \<Longrightarrow> last (split sep s) = s"
  by (simp add: split_no_sep)

lemma split_after_last_sep:
  "last (split sep (org @ sep # name)) = last (split sep name) \<and>
   tl (split sep (org @ sep # name)) \<noteq> []"
proof (induction org)
  case Nil
  show ?case by simp
next
  case (Cons c org)
  show ?case
  proof (cases "c = sep")
    case True
    with Cons show ?thesis by simp
  next
    case False
    obtain w ws where ws: "split sep (org @ sep # name) = w # ws"
      by (cases "split sep (org @ sep # name)") simp_all
    with Cons have "ws \<noteq> []" "last ws = last (split sep name)" by auto
    with False ws show ?thesis by simp
  qed
qed

lemma last_split_after_sep:
  "sep \<notin> set name \<Longrightarrow> last (split sep (org @ sep # name)) = name"
  using split_after_last_sep [of sep org name] by (simp add: split_no_sep)

lemma legend_model_name_eq:
  "legend_model_name l = capitalize_first (before_first_hyphen (last (split CHR ''/'' l)))"
proof -
  have "(if CHR ''-'' \<in> set n then hd (split1 CHR ''-'' n) else n) = before_first_hyphen n" for n
  proof (cases "CHR ''-'' \<in> set n")
    case True
    then show ?thesis by (simp add: split1_def before_first_hyphen_def)
  next
    case False
    then have tw: "takeWhile (\<lambda>c. c \<noteq> CHR ''-'') n = n"
      unfolding takeWhile_eq_all_conv by blast
    show ?thesis unfolding before_first_hyphen_def tw using False by simp
  qed
  then show ?thesis
    by (simp add: legend_model_name_def capitalize_first_def Let_def)
qed

lemma labels_of_legends:
  assumes "build_figure df = Inr fig" and "top_llms df = Inr ls"
    and "top_decision_points df = Inr tdp"
  shows "map le_label (fig_llm_legend fig) = map legend_model_name (sort ls)"
    and "map le_label (fig_decision_legend fig) = map (replace CHR ''_'' CHR '' '') (sort tdp)"
proof -
  have "fig_llm_legend fig =
          map (\<lambda>i. \<lparr>le_marker = markers ! (i mod 12), le_markerfacecolor = ''gray'',
                     le_label = legend_model_name (sort ls ! i)\<rparr>) [0..<length ls]"
    using fig_legends(1) [OF assms] top_llms_InrD(1) [OF assms(2)]
    by (intro llm_legend_elements_eq)
  then have "map le_label (fig_llm_legend fig) =
               map (\<lambda>i. legend_model_name (sort ls ! i)) [0..<length (sort ls)]"
    by (simp add: comp_def)
  also have "\<dots> = map legend_model_name (sort ls)"
    by (simp only: map_nth flip: map_map [unfolded comp_def])
  finally show "map le_label (fig_llm_legend fig) = map legend_model_name (sort ls)" .
  have "fig_decision_legend fig =
          map (\<lambda>i. \<lparr>le_marker = ''o'', le_markerfacecolor = colors tdp ! i,
                     le_label = replace CHR ''_'' CHR '' '' (sort tdp ! i)\<rparr>) [0..<length tdp]"
    using fig_legends(2) [OF assms] top_decision_points_InrD(1) [OF assms(3)]
    by (intro decision_legend_elements_eq)
  then have "map le_label (fig_decision_legend fig) =
               map (\<lambda>i. replace CHR ''_'' CHR '' '' (sort tdp ! i)) [0..<length (sort tdp)]"
    by (simp add: comp_def)
  also have "\<dots> = map (replace CHR ''_'' CHR '' '') (sort tdp)"
    by (simp only: map_nth flip: map_map [unfolded comp_def])
  finally show "map le_label (fig_decision_legend fig) =
                  map (replace CHR ''_'' CHR '' '') (sort tdp)" .
qed

section \<open>The claims\<close>

text \<open>
  \<^bold>\<open>C1.\<close> For every prompting technique \<open>p\<close>, the rows of \<open>p\<close> in the top-5 subset are
  \<open>min 5 n\<close> of the \<open>n\<close> rows of \<open>p\<close> in the input table (so at most five, and fewer only
  when the technique has fewer), they are rows of the input table (as a multiset:
  duplicate rows count separately), and every row of \<open>p\<close> that was left out has a score
  less than or equal to the score of every row of \<open>p\<close> that was kept.
\<close>

theorem top_df_keeps_top5:
  fixes df :: dataframe and p :: string
  defines "kept \<equiv> filter (\<lambda>r. prompt r = p) (top_df df)"
    and "candidates \<equiv> filter (\<lambda>r. prompt r = p) df"
  shows "length kept = min 5 (length candidates) \<and>
         mset (map record_of kept) \<subseteq># mset (map record_of candidates) \<and>
         (\<forall>e \<in># mset (map record_of candidates) - mset (map record_of kept).
            \<forall>k \<in> set (map record_of kept). score e \<le> score k)"
proof -
  define cand where "cand = filter (\<lambda>r. prompt r = p) (df_numbered df)"
  define rest where "rest = drop 5 (sort_key (\<lambda>r. - f1_harmonic_mean r) cand)"
  have kept: "kept = nlargest 5 cand"
    unfolding kept_def cand_def by (rule filter_top_df)
  have recs: "map record_of cand = map record_of candidates"
    unfolding cand_def candidates_def by (rule filter_prompt_df_numbered)
  have recs_m: "image_mset record_of (mset cand) = mset (map record_of candidates)"
    by (simp only: mset_map [symmetric] recs)
  have "length (map record_of cand) = length (map record_of candidates)"
    by (simp only: recs)
  then have "length cand = length candidates"
    by (simp only: length_map)
  then have len: "length kept = min 5 (length candidates)"
    by (simp only: kept length_nlargest)
  have sub: "mset kept \<subseteq># mset cand"
    unfolding kept by (rule mset_nlargest_subset)
  have sub': "mset (map record_of kept) \<subseteq># mset (map record_of candidates)"
    using image_mset_subseteq_mono [OF sub, of record_of]
    by (simp only: recs_m mset_map)
  have "image_mset record_of (mset cand - mset kept) =
          image_mset record_of (mset cand) - image_mset record_of (mset kept)"
    by (rule image_mset_Diff [OF sub])
  then have rest: "mset (map record_of candidates) - mset (map record_of kept) =
                     image_mset record_of (mset rest)"
    by (simp only: recs_m mset_map kept mset_nlargest_rest rest_def)
  have dom: "score e \<le> score k"
    if "e \<in># image_mset record_of (mset rest)" and "k \<in> set (map record_of kept)" for e k
  proof -
    from that(1) obtain e' where e': "e' \<in> set rest" "e = record_of e'" by auto
    from that(2) obtain k' where k': "k' \<in> set kept" "k = record_of k'" by auto
    have "f1_harmonic_mean e' \<le> f1_harmonic_mean k'"
      using nlargest_dominates [of k' 5 cand e'] e'(1) k'(1)
      by (simp only: kept rest_def)
    then show ?thesis by (simp only: e'(2) k'(2) score_record_of)
  qed
  show ?thesis
    unfolding rest using len sub' dom by blast
qed

theorem top_df_keeps_top5_witness:
  "length (filter (\<lambda>r. prompt r = ''zero_shot'') (top_df ex_table)) = 5 \<and>
   (''gpt-4'', ''zero_shot'', ''exploitation'', 0.60) \<in>#
      mset (map record_of (filter (\<lambda>r. prompt r = ''zero_shot'') ex_table)) -
      mset (map record_of (filter (\<lambda>r. prompt r = ''zero_shot'') (top_df ex_table))) \<and>
   (''gemma-2'', ''zero_shot'', ''automatable'', 0.65) \<in>
      set (map record_of (filter (\<lambda>r. prompt r = ''zero_shot'') (top_df ex_table))) \<and>
   score (''gpt-4'', ''zero_shot'', ''exploitation'', 0.60) \<le>
     score (''gemma-2'', ''zero_shot'', ''automatable'', 0.65)"
proof -
  let ?kept = "map record_of (filter (\<lambda>r. prompt r = ''zero_shot'') (top_df ex_table))"
  let ?cand = "map record_of (filter (\<lambda>r. prompt r = ''zero_shot'') ex_table)"
  have kept: "?kept =
     [(''gemma-2'', ''zero_shot'', ''exploitation'', 0.95),
      (''gpt-4'', ''zero_shot'', ''automatable'', 0.90),
      (''llama-3'', ''zero_shot'', ''automatable'', 0.85),
      (''llama-3'', ''zero_shot'', ''exploitation'', 0.70),
      (''gemma-2'', ''zero_shot'', ''automatable'', 0.65)]"
    by code_simp
  have cand: "?cand =
     [(''gpt-4'', ''zero_shot'', ''exploitation'', 0.60),
      (''gpt-4'', ''zero_shot'', ''automatable'', 0.90),
      (''llama-3'', ''zero_shot'', ''exploitation'', 0.70),
      (''llama-3'', ''zero_shot'', ''automatable'', 0.85),
      (''gemma-2'', ''zero_shot'', ''exploitation'', 0.95),
      (''gemma-2'', ''zero_shot'', ''automatable'', 0.65)]"
    by code_simp
  have out: "(''gpt-4'', ''zero_shot'', ''exploitation'', 0.60) \<in># mset ?cand - mset ?kept"
    unfolding kept cand by (simp add: in_diff_count)
  have in_kept: "(''gemma-2'', ''zero_shot'', ''automatable'', 0.65) \<in> set ?kept"
    unfolding kept by simp
  have len: "length (filter (\<lambda>r. prompt r = ''zero_shot'') (top_df ex_table)) = 5"
    using arg_cong [OF kept, of length] by simp
  from top_df_keeps_top5 [of "''zero_shot''" ex_table] out in_kept len
  show ?thesis by blast
qed




text \<open>
  \<^bold>\<open>C10.\<close> The abbreviation of a technique is defined exactly when none of its
  underscore-delimited words is empty; otherwise \<open>word[0]\<close> raises \<open>IndexError\<close>. The
  script raises it, draws nothing and writes no file, exactly when some technique of the
  table has an empty word. An empty string, a leading, a trailing and a doubled
  underscore all give an empty word.
\<close>

theorem abbreviator_partial:
  "abbreviate p =
     (if [] \<in> set (split CHR ''_'' p) then Inl IndexError
      else Inr (initials (split CHR ''_'' p))) \<and>
   (prompt_abbrev df = Inl IndexError \<longleftrightarrow>
      (\<exists>p \<in> set (prompts df). [] \<in> set (split CHR ''_'' p))) \<and>
   ((\<exists>pa. prompt_abbrev df = Inr pa) \<longleftrightarrow>
      (\<forall>p \<in> set (prompts df). [] \<notin> set (split CHR ''_'' p))) \<and>
   ((\<exists>p \<in> set (prompts df). [] \<in> set (split CHR ''_'' p)) \<longrightarrow>
      build_figure df = Inl IndexError \<and> main ok df = ([], Some IndexError)) \<and>
   [] \<in> set (split CHR ''_'' []) \<and>
   [] \<in> set (split CHR ''_'' (CHR ''_'' # s)) \<and>
   [] \<in> set (split CHR ''_'' (s @ ''_'')) \<and>
   [] \<in> set (split CHR ''_'' (s @ ''__'' @ t))"
proof -
  have "(\<exists>p \<in> set (prompts df). [] \<in> set (split CHR ''_'' p)) \<longrightarrow>
          build_figure df = Inl IndexError \<and> main ok df = ([], Some IndexError)"
    using build_figure_IndexError [of df] by (auto simp: main_def)
  moreover have "prompt_abbrev df = Inl IndexError \<longleftrightarrow>
      (\<exists>p \<in> set (prompts df). [] \<in> set (split CHR ''_'' p))"
    by (simp add: prompt_abbrev_cases)
  moreover have "(\<exists>pa. prompt_abbrev df = Inr pa) \<longleftrightarrow>
      (\<forall>p \<in> set (prompts df). [] \<notin> set (split CHR ''_'' p))"
    by (simp add: prompt_abbrev_cases)
  moreover have "[] \<in> set (split CHR ''_'' (s @ ''__'' @ t))"
    using empty_word_examples(4) [of "CHR ''_''" s t] by simp
  ultimately show ?thesis
    using abbreviate_cases [of p] empty_word_examples(1-3) [of "CHR ''_''"] by blast
qed

theorem abbreviator_partial_witness:
  "''few__shot'' \<in> set (prompts ex_empty_word) \<and>
   abbreviate ''few__shot'' = Inl IndexError \<and>
   build_figure ex_empty_word = Inl IndexError \<and>
   main all_writable ex_empty_word = ([], Some IndexError)"
proof -
  have ps: "prompts ex_empty_word = [''zero_shot'', ''few__shot'']"
    by code_simp
  have words: "split CHR ''_'' ''few__shot'' = [''few'', [], ''shot'']"
    by simp
  have bad: "\<exists>p \<in> set (prompts ex_empty_word). [] \<in> set (split CHR ''_'' p)"
    unfolding ps by (simp add: words)
  from abbreviator_partial [of "''few__shot''" ex_empty_word all_writable] bad words ps
  show ?thesis by simp
qed

text \<open>
  \<^bold>\<open>C4.\<close> What holds of the code: the four files are saved one after the other, PDF, PNG, TIFF,
  EPS; the run completes only when all four are written, and otherwise it ends at the
  first statement that raises, with the files saved before it left in place. The files
  written are therefore a prefix of the four, which may be a proper nonempty one.
\<close>

theorem export_writes_prefix:
  "(build_figure df = Inr fig \<longrightarrow>
      main ok df =
        (takeWhile ok output_files,
         case dropWhile ok output_files of [] \<Rightarrow> None | f # _ \<Rightarrow> Some (SaveError f))) \<and>
   (build_figure df = Inl e \<longrightarrow> main ok df = ([], Some e)) \<and>
   (\<exists>n. fst (main ok df) = take n output_files) \<and>
   (snd (main ok df) = None \<longrightarrow> fst (main ok df) = output_files)"
proof -
  have prefix: "takeWhile ok output_files = take (length (takeWhile ok output_files)) output_files"
    by (rule takeWhile_eq_take)
  have "\<exists>n. fst (main ok df) = take n output_files"
  proof (cases "build_figure df")
    case (Inl e)
    then have "fst (main ok df) = take 0 output_files" by (simp add: main_eq)
    then show ?thesis ..
  next
    case (Inr fig)
    then have "fst (main ok df) = take (length (takeWhile ok output_files)) output_files"
      using prefix by (simp add: main_eq)
    then show ?thesis ..
  qed
  moreover have "snd (main ok df) = None \<longrightarrow> fst (main ok df) = output_files"
  proof
    assume completed: "snd (main ok df) = None"
    then obtain fig where "build_figure df = Inr fig"
      by (cases "build_figure df") (simp_all add: main_eq)
    with completed have "dropWhile ok output_files = []" "fst (main ok df) = takeWhile ok output_files"
      by (simp_all add: main_eq split: list.splits)
    then show "fst (main ok df) = output_files"
      using takeWhile_dropWhile_id [of ok output_files] by simp
  qed
  ultimately show ?thesis by (simp add: main_eq)
qed

theorem export_writes_prefix_witness:
  "\<exists>fig. build_figure ex_table = Inr fig \<and>
     main all_writable ex_table =
       ([''prompt_top5_performance_plot.pdf'', ''prompt_top5_performance_plot.png'',
         ''prompt_top5_performance_plot.tiff'', ''prompt_top5_performance_plot.eps''], None)"
proof -
  have ps: "prompts ex_table = [''zero_shot'', ''few_shot'']"
    by code_simp
  have "ex_table \<noteq> []" "\<forall>p \<in> set (prompts ex_table). [] \<notin> set (split CHR ''_'' p)"
    unfolding ps by (simp_all add: ex_table_def)
  then obtain fig where fig: "build_figure ex_table = Inr fig"
    using build_figure_succeeds by blast
  with export_writes_prefix [of ex_table fig all_writable]
  have "main all_writable ex_table =
          (takeWhile all_writable output_files,
           case dropWhile all_writable output_files of [] \<Rightarrow> None | f # _ \<Rightarrow> Some (SaveError f))"
    by blast
  then have "main all_writable ex_table =
       ([''prompt_top5_performance_plot.pdf'', ''prompt_top5_performance_plot.png'',
         ''prompt_top5_performance_plot.tiff'', ''prompt_top5_performance_plot.eps''], None)"
    by (simp add: all_writable_def output_files_def)
  with fig show ?thesis by blast
qed

text \<open>When only the PDF can be written, the run ends while saving the PNG and leaves the
  PDF alone: one of the four files, not none and not all.\<close>

theorem export_partial_counterexample:
  "main only_pdf ex_table =
     ([''prompt_top5_performance_plot.pdf''],
      Some (SaveError ''prompt_top5_performance_plot.png''))"
proof -
  have ps: "prompts ex_table = [''zero_shot'', ''few_shot'']"
    by code_simp
  have "ex_table \<noteq> []" "\<forall>p \<in> set (prompts ex_table). [] \<notin> set (split CHR ''_'' p)"
    unfolding ps by (simp_all add: ex_table_def)
  then obtain fig where fig: "build_figure ex_table = Inr fig"
    using build_figure_succeeds by blast
  then show ?thesis
    by (simp add: main_eq only_pdf_def output_files_def)
qed

text \<open>
  \<^bold>\<open>C7.\<close> The abbreviation of a technique made of non-empty words joined by underscores
  is the string of the uppercased first letters of the words, and the dict
  \<open>prompt_abbrev\<close> holds it for every technique of the table. Nothing tells two
  techniques with the same initials apart: \<open>zero_shot\<close> and \<open>zero_step\<close> both get
  \<open>ZS\<close>, and the x axis shows the label \<open>ZS\<close> twice.
\<close>

theorem abbreviator_initials:
  "(ws \<noteq> [] \<and> (\<forall>w \<in> set ws. w \<noteq> [] \<and> CHR ''_'' \<notin> set w) \<longrightarrow>
      abbreviate (join CHR ''_'' ws) = Inr (initials ws)) \<and>
   (prompt_abbrev df = Inr pa \<longrightarrow>
      dom pa = set (map prompt df) \<and>
      (\<forall>p \<in> set (map prompt df). pa p = Some (initials (split CHR ''_'' p)))) \<and>
   (\<exists>pa. prompt_abbrev ex_collision = Inr pa \<and>
      pa ''zero_shot'' = Some ''ZS'' \<and> pa ''zero_step'' = Some ''ZS'') \<and>
   map_sum id fig_xticklabels (build_figure ex_collision) = Inr [''ZS'', ''ZS'']"
proof -
  have 1: "abbreviate (join CHR ''_'' ws) = Inr (initials ws)"
    if "ws \<noteq> []" and "\<forall>w \<in> set ws. w \<noteq> [] \<and> CHR ''_'' \<notin> set w"
  proof -
    from that have "split CHR ''_'' (join CHR ''_'' ws) = ws"
      by (intro split_join) auto
    moreover from that have "[] \<notin> set ws" by auto
    ultimately show ?thesis by (simp add: abbreviate_cases)
  qed
  have 2: "dom pa = set (map prompt df) \<and>
      (\<forall>p \<in> set (map prompt df). pa p = Some (initials (split CHR ''_'' p)))"
    if "prompt_abbrev df = Inr pa"
    unfolding dom_prompt_abbrev [OF that] by (auto simp: prompts_def dom_def)
  have ps: "prompts ex_collision = [''zero_shot'', ''zero_step'']"
    by code_simp
  have words: "split CHR ''_'' ''zero_shot'' = [''zero'', ''shot'']"
    "split CHR ''_'' ''zero_step'' = [''zero'', ''step'']"
    by simp_all
  have zs: "initials [''zero'', ''shot''] = ''ZS''" "initials [''zero'', ''step''] = ''ZS''"
    by code_simp+
  have 3: "\<exists>pa. prompt_abbrev ex_collision = Inr pa \<and>
      pa ''zero_shot'' = Some ''ZS'' \<and> pa ''zero_step'' = Some ''ZS''"
    by (simp add: prompt_abbrev_cases ps words zs)
  have 4: "map_sum id fig_xticklabels (build_figure ex_collision) = Inr [''ZS'', ''ZS'']"
    by code_simp
  from 1 2 3 4 show ?thesis by blast
qed

theorem abbreviator_initials_witness:
  "abbreviate ''chain_of_thought'' = Inr ''COT''"
proof -
  have "abbreviate (join CHR ''_'' [''chain'', ''of'', ''thought'']) =
          Inr (initials [''chain'', ''of'', ''thought''])"
    using abbreviator_initials [of "[''chain'', ''of'', ''thought'']"] by simp
  moreover have "join CHR ''_'' [''chain'', ''of'', ''thought''] = ''chain_of_thought''"
    by simp
  moreover have "initials [''chain'', ''of'', ''thought''] = ''COT''"
    by code_simp
  ultimately show ?thesis by simp
qed

text \<open>
  \<^bold>\<open>C3.\<close> What holds of the code: the number of distinct marker shapes assigned to the models of the
  top-5 subset is the number of distinct models there, capped at 12, which is the length
  of the marker sequence. The same holds for the markers of the model legend.
\<close>

theorem marker_shape_count:
  "top_llms df = Inr ls \<Longrightarrow>
     card (ran (llm_markers ls)) = min (card (llm ` set (top_df df))) 12 \<and>
     (build_figure df = Inr fig \<longrightarrow>
        card (le_marker ` set (fig_llm_legend fig)) = min (card (llm ` set (top_df df))) 12)"
proof -
  assume ls: "top_llms df = Inr ls"
  note d = top_llms_InrD(1,2) [OF ls]
  have n: "card (llm ` set (top_df df)) = length ls"
    using d distinct_card [of ls] by simp
  have ran: "card (ran (llm_markers ls)) = min (length ls) 12"
    by (rule card_ran_llm_markers [OF d(1)])
  have "card (le_marker ` set (fig_llm_legend fig)) = min (length ls) 12"
    if fig: "build_figure df = Inr fig"
  proof -
    from build_figure_InrD [OF fig] ls obtain tdp where "top_decision_points df = Inr tdp"
      by force
    from fig_legends(1) [OF fig ls this]
    have "fig_llm_legend fig =
            map (\<lambda>i. \<lparr>le_marker = markers ! (i mod 12), le_markerfacecolor = ''gray'',
                       le_label = legend_model_name (sort ls ! i)\<rparr>) [0..<length ls]"
      by (rule llm_legend_elements_eq [OF d(1)])
    then have "le_marker ` set (fig_llm_legend fig) = (\<lambda>i. markers ! (i mod 12)) ` {..<length ls}"
      by (simp add: image_image atLeast0LessThan)
    also have "\<dots> = (\<lambda>i. markers ! (i mod length markers)) ` {..<length ls}"
      by (simp only: length_markers)
    finally show ?thesis
      using cyclic_image_card [OF _ distinct_markers, of "length ls"]
      by (simp add: length_markers markers_def)
  qed
  with ran n show ?thesis by simp
qed

theorem marker_shape_count_witness:
  "top_llms ex_table = Inr [''gemma-2'', ''gpt-4'', ''llama-3''] \<and>
   card (ran (llm_markers [''gemma-2'', ''gpt-4'', ''llama-3''])) = 3"
proof -
  have ls: "top_llms ex_table = Inr [''gemma-2'', ''gpt-4'', ''llama-3'']"
    by code_simp
  have "llm ` set (top_df ex_table) = set [''gemma-2'', ''gpt-4'', ''llama-3'']"
    using top_llms_InrD(2) [OF ls] by simp
  then have "card (llm ` set (top_df ex_table)) = 3"
    by simp
  with marker_shape_count [OF ls] ls show ?thesis by simp
qed

text \<open>Thirteen models use all 12 shapes, while \<open>13 mod 12 = 1\<close>; nor is 12 congruent to
  13 modulo 12.\<close>

theorem marker_shape_count_counterexample:
  "top_llms ex_models =
     Inr [''a'', ''b'', ''c'', ''d'', ''e'', ''f'', ''g'', ''h'', ''i'', ''j'', ''k'', ''l'', ''m''] \<and>
   card (set [''a'', ''b'', ''c'', ''d'', ''e'', ''f'', ''g'', ''h'', ''i'', ''j'', ''k'', ''l'', ''m'']) = 13 \<and>
   card (ran (llm_markers
     [''a'', ''b'', ''c'', ''d'', ''e'', ''f'', ''g'', ''h'', ''i'', ''j'', ''k'', ''l'', ''m''])) = 12 \<and>
   (12::nat) \<noteq> 13 mod 12 \<and> (12::nat) mod 12 \<noteq> 13 mod 12"
proof -
  let ?ls = "[''a'', ''b'', ''c'', ''d'', ''e'', ''f'', ''g'', ''h'', ''i'', ''j'', ''k'', ''l'', ''m'']"
  have ls: "top_llms ex_models = Inr ?ls"
    by code_simp
  have d: "distinct ?ls" by simp
  have "card (set ?ls) = 13"
    using distinct_card [OF d] by simp
  moreover have "card (ran (llm_markers ?ls)) = 12"
    using card_ran_llm_markers [OF d] by simp
  ultimately show ?thesis using ls by simp
qed

text \<open>
  \<^bold>\<open>C5.\<close> The models of the top-5 subset, sorted in ascending string order without
  repetition, get the markers in turn: the model at position \<open>i\<close> gets the marker at
  index \<open>i mod 12\<close> of the 12 markers, so the thirteenth model gets the first marker
  again. The model legend lists these markers in the same order.
\<close>

theorem markers_by_sorted_rank:
  "top_llms df = Inr ls \<Longrightarrow>
     sorted (sort ls) \<and> distinct (sort ls) \<and> set (sort ls) = llm ` set (top_df df) \<and>
     length markers = 12 \<and>
     (\<forall>i < length (sort ls). llm_markers ls (sort ls ! i) = Some (markers ! (i mod 12))) \<and>
     (build_figure df = Inr fig \<longrightarrow>
        map le_marker (fig_llm_legend fig) =
          map (\<lambda>i. markers ! (i mod 12)) [0..<length (sort ls)])"
proof -
  assume ls: "top_llms df = Inr ls"
  note d = top_llms_InrD(1,2) [OF ls]
  have nth: "\<forall>i < length (sort ls). llm_markers ls (sort ls ! i) = Some (markers ! (i mod 12))"
    using llm_markers_nth [OF d(1)] by (simp add: length_markers)
  have "map le_marker (fig_llm_legend fig) = map (\<lambda>i. markers ! (i mod 12)) [0..<length (sort ls)]"
    if fig: "build_figure df = Inr fig"
  proof -
    from build_figure_InrD [OF fig] ls obtain tdp where "top_decision_points df = Inr tdp"
      by force
    from fig_legends(1) [OF fig ls this]
    have "fig_llm_legend fig =
            map (\<lambda>i. \<lparr>le_marker = markers ! (i mod 12), le_markerfacecolor = ''gray'',
                       le_label = legend_model_name (sort ls ! i)\<rparr>) [0..<length ls]"
      by (rule llm_legend_elements_eq [OF d(1)])
    then show ?thesis by (simp add: comp_def)
  qed
  with nth d show ?thesis by (simp add: length_markers)
qed

theorem markers_by_sorted_rank_witness:
  "top_llms ex_table = Inr [''gemma-2'', ''gpt-4'', ''llama-3''] \<and>
   sort [''gemma-2'', ''gpt-4'', ''llama-3''] ! 1 = ''gpt-4'' \<and>
   llm_markers [''gemma-2'', ''gpt-4'', ''llama-3''] ''gpt-4'' = Some ''s''"
proof -
  have ls: "top_llms ex_table = Inr [''gemma-2'', ''gpt-4'', ''llama-3'']"
    by code_simp
  have s: "sort [''gemma-2'', ''gpt-4'', ''llama-3''] = [''gemma-2'', ''gpt-4'', ''llama-3'']"
    by code_simp
  have m: "markers ! (1 mod 12) = ''s''"
    by (simp add: markers_def)
  from markers_by_sorted_rank [OF ls]
  have "\<forall>i < length (sort [''gemma-2'', ''gpt-4'', ''llama-3'']).
          llm_markers [''gemma-2'', ''gpt-4'', ''llama-3'']
            (sort [''gemma-2'', ''gpt-4'', ''llama-3''] ! i) = Some (markers ! (i mod 12))"
    by blast
  from this [rule_format, of 1]
  have "llm_markers [''gemma-2'', ''gpt-4'', ''llama-3'']
               (sort [''gemma-2'', ''gpt-4'', ''llama-3''] ! 1) = Some (markers ! (1 mod 12))"
    by (simp add: s)
  with ls s m show ?thesis by simp
qed

text \<open>
  \<^bold>\<open>C6.\<close> What holds of the code: the palette has exactly one entry for each distinct decision-point
  category of the top-5 subset, and the category at position \<open>i\<close> of the ascending sort
  gets entry \<open>i\<close>. The entries are the ten colours of seaborn's colorblind palette,
  repeated from the start after the tenth, so the number of distinct colours used is the
  number of categories capped at 10.
\<close>

theorem colors_by_sorted_rank:
  "top_decision_points df = Inr tdp \<Longrightarrow>
     length (colors tdp) = card (ssvc_decision_point ` set (top_df df)) \<and>
     sorted (sort tdp) \<and> distinct (sort tdp) \<and>
     set (sort tdp) = ssvc_decision_point ` set (top_df df) \<and>
     (\<forall>i < length (sort tdp).
        decision_colors tdp (sort tdp ! i) = Some (colors tdp ! i) \<and>
        colors tdp ! i = colorblind ! (i mod 10)) \<and>
     card (ran (decision_colors tdp)) = min (card (ssvc_decision_point ` set (top_df df))) 10"
proof -
  assume tdp: "top_decision_points df = Inr tdp"
  note d = top_decision_points_InrD(1,2) [OF tdp]
  have n: "card (ssvc_decision_point ` set (top_df df)) = length tdp"
    using d distinct_card [of tdp] by simp
  have nth: "\<forall>i < length (sort tdp).
        decision_colors tdp (sort tdp ! i) = Some (colors tdp ! i) \<and>
        colors tdp ! i = colorblind ! (i mod 10)"
    using decision_colors_nth [OF d(1)] colors_nth [of _ tdp] by simp
  from n nth d card_ran_decision_colors [OF d(1)] show ?thesis
    by (simp add: length_colors)
qed

theorem colors_by_sorted_rank_witness:
  "top_decision_points ex_table = Inr [''exploitation'', ''automatable''] \<and>
   length (colors [''exploitation'', ''automatable'']) = 2 \<and>
   sort [''exploitation'', ''automatable''] ! 0 = ''automatable'' \<and>
   decision_colors [''exploitation'', ''automatable''] ''automatable'' = Some ''#0173B2''"
proof -
  have tdp: "top_decision_points ex_table = Inr [''exploitation'', ''automatable'']"
    by code_simp
  have s: "sort [''exploitation'', ''automatable''] = [''automatable'', ''exploitation'']"
    by code_simp
  have c: "colorblind ! (0 mod 10) = ''#0173B2''"
    by (simp add: colorblind_def)
  from colors_by_sorted_rank [OF tdp]
  have "\<forall>i < length (sort [''exploitation'', ''automatable'']).
        decision_colors [''exploitation'', ''automatable'']
          (sort [''exploitation'', ''automatable''] ! i) =
            Some (colors [''exploitation'', ''automatable''] ! i) \<and>
        colors [''exploitation'', ''automatable''] ! i = colorblind ! (i mod 10)"
    by blast
  from this [rule_format, of 0]
  have "decision_colors [''exploitation'', ''automatable'']
          (sort [''exploitation'', ''automatable''] ! 0) =
            Some (colors [''exploitation'', ''automatable''] ! 0) \<and>
        colors [''exploitation'', ''automatable''] ! 0 = colorblind ! (0 mod 10)"
    by (simp add: s)
  with tdp s c show ?thesis by (simp add: length_colors)
qed

text \<open>Eleven categories use 10 distinct colours: the first and the eleventh category of
  the ascending sort get the same colour.\<close>

theorem colors_count_counterexample:
  "top_decision_points ex_categories =
     Inr [''a'', ''b'', ''c'', ''d'', ''e'', ''f'', ''g'', ''h'', ''i'', ''j'', ''k''] \<and>
   card (set [''a'', ''b'', ''c'', ''d'', ''e'', ''f'', ''g'', ''h'', ''i'', ''j'', ''k'']) = 11 \<and>
   card (ran (decision_colors
     [''a'', ''b'', ''c'', ''d'', ''e'', ''f'', ''g'', ''h'', ''i'', ''j'', ''k''])) = 10 \<and>
   decision_colors [''a'', ''b'', ''c'', ''d'', ''e'', ''f'', ''g'', ''h'', ''i'', ''j'', ''k''] ''a'' =
     Some ''#0173B2'' \<and>
   decision_colors [''a'', ''b'', ''c'', ''d'', ''e'', ''f'', ''g'', ''h'', ''i'', ''j'', ''k''] ''k'' =
     Some ''#0173B2''"
proof -
  let ?tdp = "[''a'', ''b'', ''c'', ''d'', ''e'', ''f'', ''g'', ''h'', ''i'', ''j'', ''k'']"
  have tdp: "top_decision_points ex_categories = Inr ?tdp"
    by code_simp
  have d: "distinct ?tdp" by simp
  have "card (set ?tdp) = 11"
    using distinct_card [OF d] by simp
  moreover have "card (ran (decision_colors ?tdp)) = 10"
    using card_ran_decision_colors [OF d] by simp
  moreover have "decision_colors ?tdp ''a'' = Some ''#0173B2''"
    by code_simp
  moreover have "decision_colors ?tdp ''k'' = Some ''#0173B2''"
    by code_simp
  ultimately show ?thesis using tdp by simp
qed

text \<open>
  \<^bold>\<open>C8.\<close> The points drawn are, as a multiset, the rows of the top-5 subset: each row
  gives one point, whose x is the 0-based position of the row's technique in the
  ascending sort of the distinct techniques of the whole table, and whose y is the row's
  score. The x-axis ticks are the positions of all these techniques.
\<close>

theorem scatter_positions:
  "build_figure df = Inr fig \<Longrightarrow>
     mset (points fig) =
       image_mset (\<lambda>r. (Some (index_in (sort (prompts df)) (prompt r)), f1_harmonic_mean r))
         (mset (top_df df)) \<and>
     sorted (sort (prompts df)) \<and> distinct (sort (prompts df)) \<and>
     set (sort (prompts df)) = prompt ` set df \<and>
     (\<forall>r \<in> set (top_df df).
        index_in (sort (prompts df)) (prompt r) < length (sort (prompts df)) \<and>
        sort (prompts df) ! index_in (sort (prompts df)) (prompt r) = prompt r) \<and>
     fig_xticks fig = map (index_in (sort (prompts df))) (sort (prompts df)) \<and>
     fig_xticks fig = [0..<length (sort (prompts df))]"
proof -
  assume fig: "build_figure df = Inr fig"
  let ?s = "sort (prompts df)"
  have d: "distinct ?s" and s: "set ?s = prompt ` set df"
    by (simp_all add: prompts_def)
  have rows: "prompt_numeric r = Some (index_in ?s (prompt r)) \<and> prompt r \<in> set ?s"
    if "r \<in> set (top_df df)" for r
    using that set_top_df [of df] prompt_numeric_df_numbered [of r df] by auto
  have "image_mset (\<lambda>r. (prompt_numeric r, f1_harmonic_mean r)) (mset (top_df df)) =
        image_mset (\<lambda>r. (Some (index_in ?s (prompt r)), f1_harmonic_mean r)) (mset (top_df df))"
    by (rule image_mset_cong) (simp add: rows)
  then have pts: "mset (points fig) =
      image_mset (\<lambda>r. (Some (index_in ?s (prompt r)), f1_harmonic_mean r)) (mset (top_df df))"
    by (simp only: mset_points [OF fig])
  have idx: "\<forall>r \<in> set (top_df df).
        index_in ?s (prompt r) < length ?s \<and> ?s ! index_in ?s (prompt r) = prompt r"
    using rows index_in_less [of _ ?s] by blast
  from build_figure_InrD [OF fig] have "fig_xticks fig = [0..<length (prompts df)]"
    by force
  then have ticks: "fig_xticks fig = [0..<length ?s]" by simp
  with xticks_positions [OF d] have "fig_xticks fig = map (index_in ?s) ?s" by simp
  with pts d s idx ticks show ?thesis by simp
qed

theorem scatter_positions_witness:
  "\<exists>fig. build_figure ex_table = Inr fig \<and>
     mset (points fig) =
       mset [(Some 1, 0.95), (Some 1, 0.90), (Some 1, 0.85), (Some 1, 0.70), (Some 1, 0.65),
             (Some 0, 0.80)] \<and>
     fig_xticks fig = [0, 1]"
proof -
  have ps: "prompts ex_table = [''zero_shot'', ''few_shot'']"
    by code_simp
  have s: "sort (prompts ex_table) = [''few_shot'', ''zero_shot'']"
    by code_simp
  have "ex_table \<noteq> []" "\<forall>p \<in> set (prompts ex_table). [] \<notin> set (split CHR ''_'' p)"
    unfolding ps by (simp_all add: ex_table_def)
  then obtain fig where fig: "build_figure ex_table = Inr fig"
    using build_figure_succeeds by blast
  have rows: "map (\<lambda>r. (Some (index_in (sort (prompts ex_table)) (prompt r)), f1_harmonic_mean r))
                (top_df ex_table) =
              [(Some 1, 0.95), (Some 1, 0.90), (Some 1, 0.85), (Some 1, 0.70), (Some 1, 0.65),
               (Some 0, 0.80)]"
    by code_simp
  from scatter_positions [OF fig]
  have "mset (points fig) =
          image_mset (\<lambda>r. (Some (index_in (sort (prompts ex_table)) (prompt r)),
                         f1_harmonic_mean r)) (mset (top_df ex_table))"
    and "fig_xticks fig = [0..<length (sort (prompts ex_table))]"
    by blast+
  then have "mset (points fig) =
          mset (map (\<lambda>r. (Some (index_in (sort (prompts ex_table)) (prompt r)),
                         f1_harmonic_mean r)) (top_df ex_table))"
    and ticks: "fig_xticks fig = [0..<length (sort (prompts ex_table))]"
    by (simp_all only: mset_map)
  then have "mset (points fig) =
       mset [(Some 1, 0.95), (Some 1, 0.90), (Some 1, 0.85), (Some 1, 0.70), (Some 1, 0.65),
             (Some 0, 0.80)]"
    by (simp only: rows)
  moreover from ticks have "fig_xticks fig = [0, 1]"
    unfolding s by (simp add: upt_rec)
  ultimately have "mset (points fig) =
       mset [(Some 1, 0.95), (Some 1, 0.90), (Some 1, 0.85), (Some 1, 0.70), (Some 1, 0.65),
             (Some 0, 0.80)] \<and> fig_xticks fig = [0, 1]"
    by (rule conjI)
  with fig show ?thesis by blast
qed

text \<open>
  \<^bold>\<open>C9.\<close> What holds of the code: the label of a model in the legend is taken from the part of the
  identifier after its last slash (the whole identifier when it has no slash): the text
  of that part before its first hyphen, with the first character in upper case and the
  rest unchanged. The labels of the decision-point legend are the category names with
  every underscore replaced by a space. Both legends follow the ascending sort.
\<close>

theorem legend_labels:
  "(build_figure df = Inr fig \<and> top_llms df = Inr ls \<and> top_decision_points df = Inr tdp \<longrightarrow>
      map le_label (fig_llm_legend fig) = map legend_model_name (sort ls) \<and>
      map le_label (fig_decision_legend fig) = map (replace CHR ''_'' CHR '' '') (sort tdp)) \<and>
   (CHR ''/'' \<notin> set l \<longrightarrow>
      legend_model_name l = capitalize_first (before_first_hyphen l)) \<and>
   (CHR ''/'' \<notin> set name \<longrightarrow>
      legend_model_name (org @ ''/'' @ name) = capitalize_first (before_first_hyphen name)) \<and>
   length (replace CHR ''_'' CHR '' '' d) = length d \<and>
   (\<forall>i < length d.
      replace CHR ''_'' CHR '' '' d ! i = (if d ! i = CHR ''_'' then CHR '' '' else d ! i))"
  using labels_of_legends [of df fig ls tdp] last_split_after_sep [of "CHR ''/''" name org]
  by (simp add: legend_model_name_eq last_split_no_sep replace_def)

theorem legend_labels_witness:
  "\<exists>fig. build_figure ex_slash = Inr fig \<and>
     map le_label (fig_llm_legend fig) = [''Llama''] \<and>
     map le_label (fig_decision_legend fig) = [''mission impact'']"
proof -
  have ps: "prompts ex_slash = [''zero_shot'']"
    by code_simp
  have "ex_slash \<noteq> []" "\<forall>p \<in> set (prompts ex_slash). [] \<notin> set (split CHR ''_'' p)"
    unfolding ps by (simp_all add: ex_slash_def)
  then obtain fig where fig: "build_figure ex_slash = Inr fig"
    using build_figure_succeeds by blast
  have ls: "top_llms ex_slash = Inr [''meta-llama/Llama-3-8b'']"
    by code_simp
  have tdp: "top_decision_points ex_slash = Inr [''mission_impact'']"
    by code_simp
  have l1: "map legend_model_name (sort [''meta-llama/Llama-3-8b'']) = [''Llama'']"
    by code_simp
  have l2: "map (replace CHR ''_'' CHR '' '') (sort [''mission_impact'']) = [''mission impact'']"
    by code_simp
  from legend_labels [of ex_slash fig "[''meta-llama/Llama-3-8b'']" "[''mission_impact'']"]
    fig ls tdp
  have "map le_label (fig_llm_legend fig) = map legend_model_name (sort [''meta-llama/Llama-3-8b''])"
    and "map le_label (fig_decision_legend fig) =
           map (replace CHR ''_'' CHR '' '') (sort [''mission_impact''])"
    by blast+
  with fig l1 l2 show ?thesis by simp
qed

text \<open>The label drawn for \<open>meta-llama/Llama-3-8b\<close> is \<open>Llama\<close>; the text of the identifier
  before its first hyphen, with its first letter in upper case, is \<open>Meta\<close>.\<close>

theorem legend_label_counterexample:
  "map_sum id (\<lambda>fig. map le_label (fig_llm_legend fig)) (build_figure ex_slash) =
     Inr [''Llama''] \<and>
   capitalize_first (before_first_hyphen ''meta-llama/Llama-3-8b'') = ''Meta''"
  by code_simp

end
